theory Spec2Isabelle
  imports Main "HOL-Library.Word" "HOL-Library.Multiset"
begin

unbundle bit_operations_syntax

section \<open>Format tags (camera_format_id, camera_format_name)\<close>

text \<open>
  A C string is modelled by the list of its bytes before the terminating NUL. The
  conversion \<open>(uint32_t) name[i]\<close> of a plain \<open>char\<close> depends on whether \<open>char\<close> is a
  signed type (x86 Linux) or an unsigned one (ARM Linux): the flag \<open>char_signed\<close> selects
  sign extension or zero extension.
\<close>

type_synonym byte = "8 word"
type_synonym uint32 = "32 word"
type_synonym int32 = "32 word"

definition char_to_uint32 :: "bool \<Rightarrow> byte \<Rightarrow> uint32" where
  "char_to_uint32 char_signed c = (if char_signed then scast c else ucast c)"

text \<open>
  \<open>name[i]\<close> for a string of \<open>n\<close> characters: the character for \<open>i < n\<close>, the
  terminator for \<open>i = n\<close>, and a read past the array (undefined behaviour) beyond.
\<close>

definition char_at :: "byte list \<Rightarrow> nat \<Rightarrow> byte option" where
  "char_at name i =
     (if i < length name then Some (name ! i)
      else if i = length name then Some 0
      else None)"

definition camera_format_id :: "bool \<Rightarrow> byte list \<Rightarrow> uint32 option" where
  "camera_format_id char_signed name =
     (case (char_at name 0, char_at name 1, char_at name 2, char_at name 3) of
        (Some c0, Some c1, Some c2, Some c3) \<Rightarrow>
          Some (char_to_uint32 char_signed c0 OR
                push_bit 8 (char_to_uint32 char_signed c1) OR
                push_bit 16 (char_to_uint32 char_signed c2) OR
                push_bit 24 (char_to_uint32 char_signed c3))
      | _ \<Rightarrow> None)"

text \<open>The five bytes written to \<open>name[0..4]\<close>, the terminator included.\<close>

definition camera_format_name :: "uint32 \<Rightarrow> byte list" where
  "camera_format_name format_id =
     [ucast (format_id AND 0xff),
      ucast (drop_bit 8 format_id AND 0xff),
      ucast (drop_bit 16 format_id AND 0xff),
      ucast (drop_bit 24 format_id AND 0xff),
      0]"

section \<open>Packed 4:2:2 to RGB24 (minmax, yuv2r, yuv2g, yuv2b, yuyv2rgb)\<close>

text \<open>
  C \<open>int\<close> values are modelled as mathematical integers; \<open>yuv_terms_fit_int\<close> below
  shows that every intermediate value of the conversion fits a 32-bit \<open>int\<close>, so no
  wrap-around is lost. \<open>>> 8\<close> on a negative \<open>int\<close> is the arithmetic shift of gcc and
  clang (\<open>drop_bit\<close> on \<open>int\<close> rounds down). The conversion of the \<open>int\<close> result to the
  \<open>uint8_t\<close> return type is \<open>word_of_int\<close>, which reduces modulo 256.
\<close>

definition minmax :: "int \<Rightarrow> int \<Rightarrow> int \<Rightarrow> int" where
  "minmax mn v mx = (if v < mn then mn else if mx < v then mx else v)"

definition yuv2r :: "int \<Rightarrow> int \<Rightarrow> int \<Rightarrow> byte" where
  "yuv2r y u v = word_of_int (minmax 0 (drop_bit 8 (y + 359 * v)) 255)"

definition yuv2g :: "int \<Rightarrow> int \<Rightarrow> int \<Rightarrow> byte" where
  "yuv2g y u v = word_of_int (minmax 0 (drop_bit 8 (y + 88 * v - 183 * u)) 255)"

definition yuv2b :: "int \<Rightarrow> int \<Rightarrow> int \<Rightarrow> byte" where
  "yuv2b y u v = word_of_int (minmax 0 (drop_bit 8 (y + 454 * u)) 255)"

text \<open>The body of the inner loop: four source bytes give six destination bytes.\<close>

definition yuyv2rgb_body :: "byte \<Rightarrow> byte \<Rightarrow> byte \<Rightarrow> byte \<Rightarrow> byte list" where
  "yuyv2rgb_body b0 b1 b2 b3 =
     (let y0 = push_bit 8 (uint b0);
          u = uint b1 - 128;
          y1 = push_bit 8 (uint b2);
          v = uint b3 - 128
      in [yuv2r y0 u v, yuv2g y0 u v, yuv2b y0 u v,
          yuv2r y1 u v, yuv2g y1 u v, yuv2b y1 u v])"

text \<open>
  The loop state is the rest of the source (\<open>yuyv\<close>), the destination array \<open>rgb\<close> and
  the write position \<open>rgbp\<close>. A read past the source or a write past the destination is
  undefined behaviour in C: the model returns \<open>None\<close>.
\<close>

type_synonym rgb_state = "byte list \<times> byte list \<times> nat"

function yuyv2rgb_cols :: "nat \<Rightarrow> nat \<Rightarrow> rgb_state \<Rightarrow> rgb_state option" where
  "yuyv2rgb_cols j width (yuyv, rgb, rgbp) =
     (if j < width then
        (case yuyv of
           b0 # b1 # b2 # b3 # rest \<Rightarrow>
             if rgbp + 6 \<le> length rgb
             then yuyv2rgb_cols (j + 2) width
                    (rest, take rgbp rgb @ yuyv2rgb_body b0 b1 b2 b3 @ drop (rgbp + 6) rgb,
                     rgbp + 6)
             else None
         | _ \<Rightarrow> None)
      else Some (yuyv, rgb, rgbp))"
  by pat_completeness auto
termination
  by (relation "measure (\<lambda>(j, width, s). width - j)") auto

function yuyv2rgb_rows :: "nat \<Rightarrow> nat \<Rightarrow> nat \<Rightarrow> rgb_state \<Rightarrow> rgb_state option" where
  "yuyv2rgb_rows i width height s =
     (if i < height then
        (case yuyv2rgb_cols 0 width s of
           None \<Rightarrow> None
         | Some s' \<Rightarrow> yuyv2rgb_rows (i + 1) width height s')
      else Some s)"
  by pat_completeness auto
termination
  by (relation "measure (\<lambda>(i, width, height, s). height - i)") auto

text \<open>
  \<open>calloc(width * height * 3, 1)\<close>: the product is computed in \<open>uint32_t\<close> and wraps.
  The allocation itself is taken to succeed.
\<close>

definition yuyv2rgb :: "byte list \<Rightarrow> uint32 \<Rightarrow> uint32 \<Rightarrow> byte list option" where
  "yuyv2rgb yuyv width height =
     (case yuyv2rgb_rows 0 (unat width) (unat height)
             (yuyv, replicate (unat (width * height * 3)) 0, 0) of
        None \<Rightarrow> None
      | Some (yuyv', rgb, rgbp) \<Rightarrow> Some rgb)"

text \<open>
  Two reference functions that the conversion is compared with. \<open>macropixels_rgb n\<close> is
  the output for the first \<open>n\<close> macropixels of a source, six bytes for every four, with
  no destination array and no write position.
\<close>

fun macropixels_rgb :: "nat \<Rightarrow> byte list \<Rightarrow> byte list" where
  "macropixels_rgb 0 ys = []"
| "macropixels_rgb (Suc n) (b0 # b1 # b2 # b3 # rest) =
     yuyv2rgb_body b0 b1 b2 b3 @ macropixels_rgb n rest"
| "macropixels_rgb (Suc n) ys = []"

text \<open>
  \<open>clamped_rgb\<close> is the colour transform on unbounded integers, with the coefficients of
  \<open>yuv2r\<close>, \<open>yuv2g\<close> and \<open>yuv2b\<close>, division by 256 rounding down, and every channel
  clamped to \<open>[0, 255]\<close> by \<open>max\<close> and \<open>min\<close>: no machine type and no conversion occurs
  in it.
\<close>

definition clamped_rgb :: "byte \<Rightarrow> byte \<Rightarrow> byte \<Rightarrow> byte \<Rightarrow> int list" where
  "clamped_rgb b0 b1 b2 b3 =
     (let y0 = uint b0 * 256; u = uint b1 - 128; y1 = uint b2 * 256; v = uint b3 - 128
      in [max 0 (min 255 ((y0 + 359 * v) div 256)),
          max 0 (min 255 ((y0 + 88 * v - 183 * u) div 256)),
          max 0 (min 255 ((y0 + 454 * u) div 256)),
          max 0 (min 255 ((y1 + 359 * v) div 256)),
          max 0 (min 255 ((y1 + 88 * v - 183 * u) div 256)),
          max 0 (min 255 ((y1 + 454 * u) div 256))])"

section \<open>The device boundary\<close>

text \<open>
  The kernel and the C library are outside the program. Every call the program makes
  to them (\<open>open\<close>, \<open>ioctl\<close>, \<open>mmap\<close>, \<open>munmap\<close>, \<open>close\<close>, \<open>free\<close>, the diagnostics
  callback) is answered by a kernel \<open>K\<close> that is a parameter of the model and is recorded
  in a trace, so that a theorem about the program holds for every device behaviour.
  An \<open>ioctl\<close> event holds the file descriptor, the request, the argument block as the
  program passed it, the block as the kernel left it, and the result.
\<close>

datatype pointer = NULL | MAP_FAILED | Addr nat

datatype request =
    VIDIOC_QUERYCAP | VIDIOC_CROPCAP | VIDIOC_S_CROP | VIDIOC_REQBUFS | VIDIOC_QUERYBUF
  | VIDIOC_G_FMT | VIDIOC_S_FMT | VIDIOC_S_PARM | VIDIOC_STREAMOFF | VIDIOC_STREAMON
  | VIDIOC_QBUF | VIDIOC_DQBUF | VIDIOC_G_CTRL | VIDIOC_S_CTRL

text \<open>The request names as the program passes them to \<open>error\<close>.\<close>

fun request_name :: "request \<Rightarrow> string" where
  "request_name VIDIOC_QUERYCAP = ''VIDIOC_QUERYCAP''"
| "request_name VIDIOC_CROPCAP = ''VIDIOC_CROPCAP''"
| "request_name VIDIOC_S_CROP = ''VIDIOC_S_CROP''"
| "request_name VIDIOC_REQBUFS = ''VIDIOC_REQBUFS''"
| "request_name VIDIOC_QUERYBUF = ''VIDIOC_QUERYBUF''"
| "request_name VIDIOC_G_FMT = ''VIDIOC_G_FMT''"
| "request_name VIDIOC_S_FMT = ''VIDIOC_S_FMT''"
| "request_name VIDIOC_S_PARM = ''VIDIOC_S_PARM''"
| "request_name VIDIOC_STREAMOFF = ''VIDIOC_STREAMOFF''"
| "request_name VIDIOC_STREAMON = ''VIDIOC_STREAMON''"
| "request_name VIDIOC_QBUF = ''VIDIOC_QBUF''"
| "request_name VIDIOC_DQBUF = ''VIDIOC_DQBUF''"
| "request_name VIDIOC_G_CTRL = ''VIDIOC_G_CTRL''"
| "request_name VIDIOC_S_CTRL = ''VIDIOC_S_CTRL''"

text \<open>
  The argument block of an \<open>ioctl\<close>. The program passes a different struct with each
  request (\<open>v4l2_capability\<close>, \<open>v4l2_cropcap\<close>, \<open>v4l2_crop\<close>, \<open>v4l2_requestbuffers\<close>,
  \<open>v4l2_buffer\<close>, \<open>v4l2_format\<close>, \<open>v4l2_streamparm\<close>, \<open>v4l2_control\<close>, a buffer type);
  one record carries the fields the program reads or writes in any of them, named after
  the struct they belong to. \<open>memset(&x, 0, sizeof x)\<close> is \<open>zero_arg\<close>; a struct the
  program leaves uninitialised starts as \<open>zero_arg\<close> as well.
\<close>

type_synonym v4l2_rect = "int \<times> int \<times> int \<times> int"

record ioctl_arg =
  arg_type :: uint32
  arg_memory :: uint32
  cap_capabilities :: uint32
  cropcap_defrect :: v4l2_rect
  crop_c :: v4l2_rect
  req_count :: uint32
  buf_index :: uint32
  buf_bytesused :: uint32
  buf_m_offset :: uint32
  buf_len :: uint32
  pix_width :: uint32
  pix_height :: uint32
  pix_pixelformat :: uint32
  pix_field :: uint32
  parm_numerator :: uint32
  parm_denominator :: uint32
  ctrl_id :: uint32
  ctrl_value :: int32

definition zero_arg :: ioctl_arg where
  "zero_arg =
     \<lparr>arg_type = 0, arg_memory = 0, cap_capabilities = 0, cropcap_defrect = (0, 0, 0, 0),
      crop_c = (0, 0, 0, 0), req_count = 0, buf_index = 0, buf_bytesused = 0,
      buf_m_offset = 0, buf_len = 0, pix_width = 0, pix_height = 0, pix_pixelformat = 0,
      pix_field = 0, parm_numerator = 0, parm_denominator = 0, ctrl_id = 0,
      ctrl_value = 0\<rparr>"

text \<open>
  Modelled from the spec: the constants of the kernel headers \<open>linux/videodev2.h\<close>,
  \<open>errno.h\<close> and \<open>fcntl.h\<close>, which the program includes and which are not part of the
  repository. The packed 4:2:2 format identifier is the tag \<open>YUYV\<close> encoded as a 32-bit
  little-endian value (section 6 of the specification); the others are the values of the
  Linux headers.
\<close>

definition V4L2_PIX_FMT_YUYV :: uint32 where "V4L2_PIX_FMT_YUYV = 0x56595559"
definition V4L2_BUF_TYPE_VIDEO_CAPTURE :: uint32 where "V4L2_BUF_TYPE_VIDEO_CAPTURE = 1"
definition V4L2_MEMORY_MMAP :: uint32 where "V4L2_MEMORY_MMAP = 1"
definition V4L2_FIELD_NONE :: uint32 where "V4L2_FIELD_NONE = 1"
definition V4L2_CAP_VIDEO_CAPTURE :: uint32 where "V4L2_CAP_VIDEO_CAPTURE = 0x00000001"
definition V4L2_CAP_STREAMING :: uint32 where "V4L2_CAP_STREAMING = 0x04000000"
definition EINTR :: int where "EINTR = 4"

datatype open_flag = O_RDWR | O_NONBLOCK

datatype camera_log_t = CAMERA_ERROR | CAMERA_FAIL | CAMERA_INFO

text \<open>The diagnostics callback installed in a camera: the program's own \<open>log_stderr\<close> or a
  callback of the caller.\<close>

datatype log_fn = Log_stderr | Log_user nat

datatype heap_object = Obj_buffers | Obj_head | Obj_camera

datatype event =
    Ev_open string "open_flag list" int
  | Ev_ioctl int request ioctl_arg ioctl_arg int
  | Ev_mmap nat int uint32 pointer
  | Ev_munmap pointer nat
  | Ev_free heap_object
  | Ev_close int int
  | Ev_log log_fn camera_log_t string pointer

text \<open>
  A kernel over its own state \<open>'k\<close>. A call returns its result, the \<open>errno\<close> it sets when
  it fails, and the next kernel state; \<open>ioctl\<close> also returns the argument block as the
  kernel leaves it. \<open>k_peek\<close> is the byte the device has put at an address of mapped
  memory.
\<close>

record 'k kernel =
  k_open :: "'k \<Rightarrow> string \<Rightarrow> open_flag list \<Rightarrow> int \<times> int \<times> 'k"
  k_ioctl :: "'k \<Rightarrow> int \<Rightarrow> request \<Rightarrow> ioctl_arg \<Rightarrow> int \<times> int \<times> ioctl_arg \<times> 'k"
  k_mmap :: "'k \<Rightarrow> nat \<Rightarrow> int \<Rightarrow> uint32 \<Rightarrow> nat option \<times> int \<times> 'k"
  k_munmap :: "'k \<Rightarrow> nat \<Rightarrow> nat \<Rightarrow> 'k"
  k_close :: "'k \<Rightarrow> int \<Rightarrow> int \<times> int \<times> 'k"
  k_peek :: "'k \<Rightarrow> nat \<Rightarrow> byte"

text \<open>
  The world the program runs in: the kernel state, \<open>errno\<close>, the regions (address,
  length) that are mapped at the moment, and the trace of calls made so far.
\<close>

record 'k world =
  kernel_state :: 'k
  errno :: int
  mapped :: "(nat \<times> nat) multiset"
  trace :: "event list"

definition emit :: "event \<Rightarrow> 'k world \<Rightarrow> 'k world" where
  "emit e w = w\<lparr>trace := trace w @ [e]\<rparr>"

definition sys_open :: "'k kernel \<Rightarrow> string \<Rightarrow> open_flag list \<Rightarrow> 'k world \<Rightarrow> int \<times> 'k world" where
  "sys_open K path flags w =
     (case k_open K (kernel_state w) path flags of
        (r, e, k') \<Rightarrow>
          (r, emit (Ev_open path flags r)
                (w\<lparr>kernel_state := k', errno := (if r = -1 then e else errno w)\<rparr>)))"

definition ioctl :: "'k kernel \<Rightarrow> int \<Rightarrow> request \<Rightarrow> ioctl_arg \<Rightarrow> 'k world \<Rightarrow> int \<times> ioctl_arg \<times> 'k world" where
  "ioctl K fd request a w =
     (case k_ioctl K (kernel_state w) fd request a of
        (r, e, a', k') \<Rightarrow>
          (r, a', emit (Ev_ioctl fd request a a' r)
                    (w\<lparr>kernel_state := k', errno := (if r = -1 then e else errno w)\<rparr>)))"

definition mmap :: "'k kernel \<Rightarrow> nat \<Rightarrow> int \<Rightarrow> uint32 \<Rightarrow> 'k world \<Rightarrow> pointer \<times> 'k world" where
  "mmap K len fd off w =
     (case k_mmap K (kernel_state w) len fd off of
        (None, e, k') \<Rightarrow>
          (MAP_FAILED, emit (Ev_mmap len fd off MAP_FAILED) (w\<lparr>kernel_state := k', errno := e\<rparr>))
      | (Some a, e, k') \<Rightarrow>
          (Addr a, emit (Ev_mmap len fd off (Addr a))
                     (w\<lparr>kernel_state := k', mapped := mapped w + {#(a, len)#}\<rparr>)))"

definition munmap :: "'k kernel \<Rightarrow> pointer \<Rightarrow> nat \<Rightarrow> 'k world \<Rightarrow> 'k world" where
  "munmap K p len w =
     emit (Ev_munmap p len)
       (case p of
          Addr a \<Rightarrow> w\<lparr>kernel_state := k_munmap K (kernel_state w) a len,
                       mapped := mapped w - {#(a, len)#}\<rparr>
        | _ \<Rightarrow> w)"

definition sys_close :: "'k kernel \<Rightarrow> int \<Rightarrow> 'k world \<Rightarrow> int \<times> 'k world" where
  "sys_close K fd w =
     (case k_close K (kernel_state w) fd of
        (r, e, k') \<Rightarrow>
          (r, emit (Ev_close fd r)
                (w\<lparr>kernel_state := k', errno := (if r = -1 then e else errno w)\<rparr>)))"

text \<open>\<open>xioctl\<close>: the first argument of the loop is the number of attempts left of the 100.\<close>

fun xioctl_loop :: "'k kernel \<Rightarrow> nat \<Rightarrow> int \<Rightarrow> request \<Rightarrow> ioctl_arg \<Rightarrow> 'k world \<Rightarrow> int \<times> ioctl_arg \<times> 'k world" where
  "xioctl_loop K 0 fd request a w = (-1, a, w)"
| "xioctl_loop K (Suc n) fd request a w =
     (case ioctl K fd request a w of
        (r, a', w') \<Rightarrow>
          if r \<noteq> -1 \<or> errno w' \<noteq> EINTR then (r, a', w')
          else xioctl_loop K n fd request a' w')"

definition xioctl :: "'k kernel \<Rightarrow> int \<Rightarrow> request \<Rightarrow> ioctl_arg \<Rightarrow> 'k world \<Rightarrow> int \<times> ioctl_arg \<times> 'k world" where
  "xioctl K fd request a w = xioctl_loop K 100 fd request a w"

section \<open>The camera (capture.c)\<close>

text \<open>
  The header \<open>capture.h\<close> is not part of the repository; the structs are taken from the
  way \<open>capture.c\<close> uses their fields. Storage that the camera owns is modelled by its
  contents: \<open>buffers\<close> is the array behind the pointer (\<open>None\<close> for a null pointer) and the
  \<open>start\<close> of \<open>head\<close> is the byte array behind it. The \<open>start\<close> of a capture buffer is the
  address \<open>mmap\<close> returned. \<open>malloc\<close> and \<open>calloc\<close> are taken to succeed. A function
  returns \<open>None\<close> where the C program has undefined behaviour (an access outside an array
  or through a null pointer).
\<close>

record camera_buffer_t =
  buf_start :: pointer
  buf_length :: nat

record camera_head_t =
  head_start :: "byte list option"
  head_length :: nat

record camera_context_t =
  ctx_pointer :: pointer
  ctx_log :: log_fn

record camera_t =
  fd :: int
  initialized :: bool
  width :: uint32
  height :: uint32
  buffer_count :: nat
  buffers :: "camera_buffer_t list option"
  head :: camera_head_t
  ctx :: camera_context_t

record camera_config_t =
  cfg_format :: uint32
  cfg_width :: uint32
  cfg_height :: uint32
  cfg_interval_numerator :: uint32
  cfg_interval_denominator :: uint32

definition error :: "camera_t \<Rightarrow> string \<Rightarrow> 'k world \<Rightarrow> bool \<times> 'k world" where
  "error camera msg w =
     (False, emit (Ev_log (ctx_log (ctx camera)) CAMERA_ERROR msg (ctx_pointer (ctx camera))) w)"

definition failure :: "camera_t \<Rightarrow> string \<Rightarrow> 'k world \<Rightarrow> bool \<times> 'k world" where
  "failure camera msg w =
     (False, emit (Ev_log (ctx_log (ctx camera)) CAMERA_FAIL msg (ctx_pointer (ctx camera))) w)"

definition camera_open :: "'k kernel \<Rightarrow> string \<Rightarrow> 'k world \<Rightarrow> camera_t option \<times> 'k world" where
  "camera_open K device w =
     (case sys_open K device [O_RDWR, O_NONBLOCK] w of
        (fd', w') \<Rightarrow>
          if fd' = -1 then (None, w')
          else (Some \<lparr>fd = fd', initialized = False, width = 0, height = 0, buffer_count = 0,
                      buffers = None, head = \<lparr>head_start = None, head_length = 0\<rparr>,
                      ctx = \<lparr>ctx_pointer = NULL, ctx_log = Log_stderr\<rparr>\<rparr>, w'))"

text \<open>The loop of \<open>free_buffers\<close>: \<open>camera->buffers[i]\<close> is read for each \<open>i < count\<close> (\<open>cnt\<close> here).\<close>

function free_buffers_loop :: "'k kernel \<Rightarrow> camera_t \<Rightarrow> nat \<Rightarrow> nat \<Rightarrow> 'k world \<Rightarrow> 'k world option" where
  "free_buffers_loop K camera i cnt w =
     (if i < cnt then
        (case buffers camera of
           None \<Rightarrow> None
         | Some bs \<Rightarrow>
             if i < length bs
             then free_buffers_loop K camera (i + 1) cnt
                    (munmap K (buf_start (bs ! i)) (buf_length (bs ! i)) w)
             else None)
      else Some w)"
  by pat_completeness auto
termination
  by (relation "measure (\<lambda>(K, camera, i, cnt, w). cnt - i)") auto

definition free_buffers :: "'k kernel \<Rightarrow> camera_t \<Rightarrow> nat \<Rightarrow> 'k world \<Rightarrow> (camera_t \<times> 'k world) option" where
  "free_buffers K camera cnt w =
     (case free_buffers_loop K camera 0 cnt w of
        None \<Rightarrow> None
      | Some w' \<Rightarrow> Some (camera\<lparr>buffers := None, buffer_count := 0\<rparr>, emit (Ev_free Obj_buffers) w'))"

definition camera_init :: "'k kernel \<Rightarrow> camera_t \<Rightarrow> 'k world \<Rightarrow> bool \<times> camera_t \<times> 'k world" where
  "camera_init K camera w =
     (case xioctl K (fd camera) VIDIOC_QUERYCAP zero_arg w of
        (r, cap, w1) \<Rightarrow>
          if r = -1 then (case error camera ''VIDIOC_QUERYCAP'' w1 of (b, w2) \<Rightarrow> (b, camera, w2))
          else if cap_capabilities cap AND V4L2_CAP_VIDEO_CAPTURE = 0
          then (case failure camera ''no capture'' w1 of (b, w2) \<Rightarrow> (b, camera, w2))
          else if cap_capabilities cap AND V4L2_CAP_STREAMING = 0
          then (case failure camera ''no streaming'' w1 of (b, w2) \<Rightarrow> (b, camera, w2))
          else
            (case xioctl K (fd camera) VIDIOC_CROPCAP
                    (zero_arg\<lparr>arg_type := V4L2_BUF_TYPE_VIDEO_CAPTURE\<rparr>) w1 of
               (r2, cropcap, w2) \<Rightarrow>
                 let w3 =
                   (if r2 = 0
                    then (case xioctl K (fd camera) VIDIOC_S_CROP
                                 (zero_arg\<lparr>arg_type := V4L2_BUF_TYPE_VIDEO_CAPTURE,
                                            crop_c := cropcap_defrect cropcap\<rparr>) w2 of
                            (r3, crop, w3) \<Rightarrow> w3)
                    else w2)
                 in (True, camera\<lparr>initialized := True\<rparr>, w3)))"

text \<open>
  The loop of \<open>camera_buffer_prepare\<close>. The result carries whether every buffer was
  queried and mapped, and \<open>buf_max\<close>.
\<close>

function camera_buffer_prepare_loop ::
  "'k kernel \<Rightarrow> camera_t \<Rightarrow> nat \<Rightarrow> nat \<Rightarrow> 'k world \<Rightarrow> (bool \<times> nat \<times> camera_t \<times> 'k world) option" where
  "camera_buffer_prepare_loop K camera i buf_max w =
     (if i < buffer_count camera then
        (case xioctl K (fd camera) VIDIOC_QUERYBUF
                (zero_arg\<lparr>arg_type := V4L2_BUF_TYPE_VIDEO_CAPTURE,
                           arg_memory := V4L2_MEMORY_MMAP, buf_index := of_nat i\<rparr>) w of
           (r, buf, w1) \<Rightarrow>
             if r = -1 then
               (case free_buffers K camera i w1 of
                  None \<Rightarrow> None
                | Some (camera', w2) \<Rightarrow>
                    (case error camera' ''VIDIOC_QUERYBUF'' w2 of
                       (b, w3) \<Rightarrow> Some (b, buf_max, camera', w3)))
             else
               let buf_max' = (if unat (buf_len buf) > buf_max then unat (buf_len buf)
                               else buf_max)
               in (case buffers camera of
                     None \<Rightarrow> None
                   | Some bs \<Rightarrow>
                       if \<not> i < length bs then None
                       else
                         (case mmap K (unat (buf_len buf)) (fd camera) (buf_m_offset buf) w1 of
                            (p, w2) \<Rightarrow>
                              let camera1 = camera\<lparr>buffers :=
                                    Some (bs[i := \<lparr>buf_start = p,
                                                    buf_length = unat (buf_len buf)\<rparr>])\<rparr>
                              in if p = MAP_FAILED then
                                   (case free_buffers K camera1 i w2 of
                                      None \<Rightarrow> None
                                    | Some (camera', w3) \<Rightarrow>
                                        (case error camera' ''mmap'' w3 of
                                           (b, w4) \<Rightarrow> Some (b, buf_max', camera', w4)))
                                 else camera_buffer_prepare_loop K camera1 (i + 1) buf_max' w2)))
      else Some (True, buf_max, camera, w))"
  by pat_completeness auto
termination
  by (relation "measure (\<lambda>(K, camera, i, buf_max, w). buffer_count camera - i)") auto

definition camera_buffer_prepare ::
  "'k kernel \<Rightarrow> camera_t \<Rightarrow> 'k world \<Rightarrow> (bool \<times> camera_t \<times> 'k world) option" where
  "camera_buffer_prepare K camera w =
     (case xioctl K (fd camera) VIDIOC_REQBUFS
             (zero_arg\<lparr>req_count := 4, arg_type := V4L2_BUF_TYPE_VIDEO_CAPTURE,
                        arg_memory := V4L2_MEMORY_MMAP\<rparr>) w of
        (r, req, w1) \<Rightarrow>
          if r = -1 then
            (case error camera ''VIDIOC_REQBUFS'' w1 of (b, w2) \<Rightarrow> Some (b, camera, w2))
          else
            let camera1 = camera\<lparr>buffer_count := unat (req_count req),
                                  buffers := Some (replicate (unat (req_count req))
                                                     \<lparr>buf_start = NULL, buf_length = 0\<rparr>)\<rparr>
            in (case camera_buffer_prepare_loop K camera1 0 0 w1 of
                  None \<Rightarrow> None
                | Some (ok, buf_max, camera2, w2) \<Rightarrow>
                    if \<not> ok then Some (False, camera2, w2)
                    else Some (True,
                               camera2\<lparr>head := (head camera2)
                                          \<lparr>head_start := Some (replicate buf_max 0)\<rparr>\<rparr>,
                               w2)))"

definition camera_buffer_finish ::
  "'k kernel \<Rightarrow> camera_t \<Rightarrow> 'k world \<Rightarrow> (camera_t \<times> 'k world) option" where
  "camera_buffer_finish K camera w =
     (case free_buffers K camera (buffer_count camera) w of
        None \<Rightarrow> None
      | Some (camera1, w1) \<Rightarrow>
          Some (camera1\<lparr>head := \<lparr>head_start = None, head_length = 0\<rparr>\<rparr>,
                emit (Ev_free Obj_head) w1))"

definition camera_load_settings ::
  "'k kernel \<Rightarrow> camera_t \<Rightarrow> 'k world \<Rightarrow> bool \<times> camera_t \<times> 'k world" where
  "camera_load_settings K camera w =
     (case xioctl K (fd camera) VIDIOC_G_FMT
             (zero_arg\<lparr>arg_type := V4L2_BUF_TYPE_VIDEO_CAPTURE\<rparr>) w of
        (r, format, w1) \<Rightarrow>
          if r = -1 then
            (case error camera ''VIDIOC_G_FMT'' w1 of (b, w2) \<Rightarrow> (b, camera, w2))
          else (True, camera\<lparr>width := pix_width format, height := pix_height format\<rparr>, w1))"

text \<open>
  \<open>config->format || V4L2_PIX_FMT_YUYV\<close> is the logical or of C: its value is the \<open>int\<close>
  1 when either operand is nonzero and 0 otherwise.
\<close>

definition logical_or :: "uint32 \<Rightarrow> uint32 \<Rightarrow> uint32" where
  "logical_or a b = (if a \<noteq> 0 \<or> b \<noteq> 0 then 1 else 0)"

definition camera_set_config ::
  "'k kernel \<Rightarrow> camera_t \<Rightarrow> camera_config_t \<Rightarrow> 'k world \<Rightarrow> bool \<times> 'k world" where
  "camera_set_config K camera config w =
     (case (if cfg_width config > 0 \<and> cfg_height config > 0 then
              (let pixformat = logical_or (cfg_format config) V4L2_PIX_FMT_YUYV in
               case xioctl K (fd camera) VIDIOC_S_FMT
                      (zero_arg\<lparr>arg_type := V4L2_BUF_TYPE_VIDEO_CAPTURE,
                                 pix_width := cfg_width config,
                                 pix_height := cfg_height config,
                                 pix_pixelformat := pixformat,
                                 pix_field := V4L2_FIELD_NONE\<rparr>) w of
                 (r, format, w1) \<Rightarrow>
                   if r = -1 then error camera ''VIDIOC_S_FMT'' w1 else (True, w1))
            else (True, w)) of
        (False, w1) \<Rightarrow> (False, w1)
      | (True, w1) \<Rightarrow>
          if cfg_interval_numerator config \<noteq> 0 \<and> cfg_interval_denominator config \<noteq> 0 then
            (case xioctl K (fd camera) VIDIOC_S_PARM
                    (zero_arg\<lparr>arg_type := V4L2_BUF_TYPE_VIDEO_CAPTURE,
                               parm_numerator := cfg_interval_numerator config,
                               parm_denominator := cfg_interval_denominator config\<rparr>) w1 of
               (r, parm, w2) \<Rightarrow>
                 if r = -1 then error camera ''VIDIOC_S_PARM'' w2 else (True, w2))
          else (True, w1))"

definition camera_stop :: "'k kernel \<Rightarrow> camera_t \<Rightarrow> 'k world \<Rightarrow> bool \<times> 'k world" where
  "camera_stop K camera w =
     (case xioctl K (fd camera) VIDIOC_STREAMOFF
             (zero_arg\<lparr>arg_type := V4L2_BUF_TYPE_VIDEO_CAPTURE\<rparr>) w of
        (r, type, w1) \<Rightarrow>
          if r = -1 then error camera ''VIDIOC_STREAMOFF'' w1 else (True, w1))"

definition camera_config ::
  "'k kernel \<Rightarrow> camera_t \<Rightarrow> camera_config_t \<Rightarrow> 'k world \<Rightarrow> (bool \<times> camera_t \<times> 'k world) option" where
  "camera_config K camera config w =
     (case (if buffer_count camera > 0 then
              (case camera_stop K camera w of
                 (False, w1) \<Rightarrow> Some (False, camera, w1)
               | (True, w1) \<Rightarrow>
                   (case camera_buffer_finish K camera w1 of
                      None \<Rightarrow> None
                    | Some (camera1, w2) \<Rightarrow> Some (True, camera1, w2)))
            else Some (True, camera, w)) of
        None \<Rightarrow> None
      | Some (False, camera1, w1) \<Rightarrow> Some (False, camera1, w1)
      | Some (True, camera1, w1) \<Rightarrow>
          (case (if \<not> initialized camera1 then camera_init K camera1 w1
                 else (True, camera1, w1)) of
             (False, camera2, w2) \<Rightarrow> Some (False, camera2, w2)
           | (True, camera2, w2) \<Rightarrow>
               (case camera_set_config K camera2 config w2 of
                  (False, w3) \<Rightarrow> Some (False, camera2, w3)
                | (True, w3) \<Rightarrow>
                    (case camera_load_settings K camera2 w3 of
                       (False, camera3, w4) \<Rightarrow> Some (False, camera3, w4)
                     | (True, camera3, w4) \<Rightarrow> camera_buffer_prepare K camera3 w4))))"

definition camera_load ::
  "'k kernel \<Rightarrow> camera_t \<Rightarrow> 'k world \<Rightarrow> (bool \<times> camera_t \<times> 'k world) option" where
  "camera_load K camera w =
     (case (if \<not> initialized camera then camera_init K camera w else (True, camera, w)) of
        (False, camera1, w1) \<Rightarrow> Some (False, camera1, w1)
      | (True, camera1, w1) \<Rightarrow>
          if buffer_count camera1 = 0 then
            (case camera_load_settings K camera1 w1 of
               (False, camera2, w2) \<Rightarrow> Some (False, camera2, w2)
             | (True, camera2, w2) \<Rightarrow>
                 (case camera_buffer_prepare K camera2 w2 of
                    None \<Rightarrow> None
                  | Some (False, camera3, w3) \<Rightarrow> Some (False, camera3, w3)
                  | Some (True, camera3, w3) \<Rightarrow> Some (True, camera3, w3)))
          else Some (True, camera1, w1))"

text \<open>The loop of \<open>camera_start\<close> that queues every buffer.\<close>

function camera_start_loop :: "'k kernel \<Rightarrow> camera_t \<Rightarrow> nat \<Rightarrow> 'k world \<Rightarrow> bool \<times> 'k world" where
  "camera_start_loop K camera i w =
     (if i < buffer_count camera then
        (case xioctl K (fd camera) VIDIOC_QBUF
                (zero_arg\<lparr>arg_type := V4L2_BUF_TYPE_VIDEO_CAPTURE,
                           arg_memory := V4L2_MEMORY_MMAP, buf_index := of_nat i\<rparr>) w of
           (r, buf, w1) \<Rightarrow>
             if r = -1 then error camera ''VIDIOC_QBUF'' w1
             else camera_start_loop K camera (i + 1) w1)
      else (True, w))"
  by pat_completeness auto
termination
  by (relation "measure (\<lambda>(K, camera, i, w). buffer_count camera - i)") auto

definition camera_start ::
  "'k kernel \<Rightarrow> camera_t \<Rightarrow> 'k world \<Rightarrow> (bool \<times> camera_t \<times> 'k world) option" where
  "camera_start K camera w =
     (case camera_load K camera w of
        None \<Rightarrow> None
      | Some (False, camera1, w1) \<Rightarrow> Some (False, camera1, w1)
      | Some (True, camera1, w1) \<Rightarrow>
          (case camera_start_loop K camera1 0 w1 of
             (False, w2) \<Rightarrow> Some (False, camera1, w2)
           | (True, w2) \<Rightarrow>
               (case xioctl K (fd camera1) VIDIOC_STREAMON
                       (zero_arg\<lparr>arg_type := V4L2_BUF_TYPE_VIDEO_CAPTURE\<rparr>) w2 of
                  (r, type, w3) \<Rightarrow>
                    if r = -1 then
                      (case error camera1 ''VIDIOC_STREAMON'' w3 of
                         (b, w4) \<Rightarrow> Some (b, camera1, w4))
                    else Some (True, camera1, w3))))"

text \<open>
  The loop of \<open>camera_close\<close> around \<open>close\<close>: the first argument is the number of
  attempts left of the 10.
\<close>

fun camera_close_loop :: "'k kernel \<Rightarrow> nat \<Rightarrow> camera_t \<Rightarrow> 'k world \<Rightarrow> 'k world" where
  "camera_close_loop K 0 camera w = w"
| "camera_close_loop K (Suc n) camera w =
     (case sys_close K (fd camera) w of
        (r, w1) \<Rightarrow> if r \<noteq> -1 then w1 else camera_close_loop K n camera w1)"

text \<open>The camera itself is freed: the result is the return value and the world.\<close>

definition camera_close :: "'k kernel \<Rightarrow> camera_t \<Rightarrow> 'k world \<Rightarrow> (bool \<times> 'k world) option" where
  "camera_close K camera w =
     (case (if buffer_count camera > 0 then
              (case camera_stop K camera w of
                 (b, w1) \<Rightarrow> camera_buffer_finish K camera w1)
            else Some (camera, w)) of
        None \<Rightarrow> None
      | Some (camera1, w2) \<Rightarrow>
          Some (True, emit (Ev_free Obj_camera) (camera_close_loop K 10 camera1 w2)))"

text \<open>
  \<open>memcpy(camera->head.start, camera->buffers[index].start, n)\<close>: the new contents of
  the head array. Defined when the index is inside the buffer array, the source is an
  address with \<open>n\<close> bytes inside a mapped region, and the head array exists and holds at
  least \<open>n\<close> bytes.
\<close>

definition readable :: "'k world \<Rightarrow> nat \<Rightarrow> nat \<Rightarrow> bool" where
  "readable w a n \<longleftrightarrow> (\<exists>(a', len) \<in># mapped w. a' \<le> a \<and> a + n \<le> a' + len)"

definition memcpy_head :: "'k kernel \<Rightarrow> camera_t \<Rightarrow> nat \<Rightarrow> nat \<Rightarrow> 'k world \<Rightarrow> byte list option" where
  "memcpy_head K camera index n w =
     (case (buffers camera, head_start (head camera)) of
        (Some bs, Some dst) \<Rightarrow>
          if index < length bs then
            (case buf_start (bs ! index) of
               Addr a \<Rightarrow>
                 if n \<le> length dst \<and> readable w a n
                 then Some (map (k_peek K (kernel_state w)) [a ..< a + n] @ drop n dst)
                 else None
             | _ \<Rightarrow> None)
          else None
      | _ \<Rightarrow> None)"

definition camera_capture ::
  "'k kernel \<Rightarrow> camera_t \<Rightarrow> 'k world \<Rightarrow> (bool \<times> camera_t \<times> 'k world) option" where
  "camera_capture K camera w =
     (case xioctl K (fd camera) VIDIOC_DQBUF
             (zero_arg\<lparr>arg_type := V4L2_BUF_TYPE_VIDEO_CAPTURE,
                        arg_memory := V4L2_MEMORY_MMAP\<rparr>) w of
        (r, buf, w1) \<Rightarrow>
          if r = -1 then Some (False, camera, w1)
          else
            (case memcpy_head K camera (unat (buf_index buf)) (unat (buf_bytesused buf)) w1 of
               None \<Rightarrow> None
             | Some bytes \<Rightarrow>
                 let camera1 = camera\<lparr>head := \<lparr>head_start = Some bytes,
                                                 head_length = unat (buf_bytesused buf)\<rparr>\<rparr>
                 in (case xioctl K (fd camera1) VIDIOC_QBUF buf w1 of
                       (r2, buf2, w2) \<Rightarrow>
                         if r2 = -1 then Some (False, camera1, w2)
                         else Some (True, camera1, w2))))"

text \<open>
  \<open>camera_control_get\<close>: \<open>val\<close> is what the caller's variable behind the pointer \<open>value\<close>
  holds before the call; the second component of the result is what it holds after.
\<close>

definition camera_control_get ::
  "'k kernel \<Rightarrow> camera_t \<Rightarrow> uint32 \<Rightarrow> int32 \<Rightarrow> 'k world \<Rightarrow> bool \<times> int32 \<times> 'k world" where
  "camera_control_get K camera cid val w =
     (case ioctl K (fd camera) VIDIOC_G_CTRL (zero_arg\<lparr>ctrl_id := cid, ctrl_value := 0\<rparr>) w of
        (r, ctrl, w1) \<Rightarrow>
          if r = -1 then
            (case error camera ''VIDIOC_G_CTRL'' w1 of (b, w2) \<Rightarrow> (b, val, w2))
          else (True, ctrl_value ctrl, w1))"

definition camera_control_set ::
  "'k kernel \<Rightarrow> camera_t \<Rightarrow> uint32 \<Rightarrow> int32 \<Rightarrow> 'k world \<Rightarrow> bool \<times> 'k world" where
  "camera_control_set K camera cid val w =
     (case ioctl K (fd camera) VIDIOC_S_CTRL (zero_arg\<lparr>ctrl_id := cid, ctrl_value := val\<rparr>) w of
        (r, ctrl, w1) \<Rightarrow>
          if r = -1 then error camera ''VIDIOC_S_CTRL'' w1 else (True, w1))"

section \<open>Reading a trace\<close>

text \<open>The regions behind the entries of a buffer array that hold an address.\<close>

fun regions :: "camera_buffer_t list \<Rightarrow> (nat \<times> nat) multiset" where
  "regions [] = {#}"
| "regions (b # bs) =
     (case buf_start b of
        Addr a \<Rightarrow> add_mset (a, buf_length b) (regions bs)
      | _ \<Rightarrow> regions bs)"

definition munmap_events :: "camera_buffer_t list \<Rightarrow> event list" where
  "munmap_events bs = map (\<lambda>b. Ev_munmap (buf_start b) (buf_length b)) bs"

text \<open>The start and length recorded in the entries of a buffer array.\<close>

definition buffer_regions :: "camera_buffer_t list \<Rightarrow> (pointer \<times> nat) list" where
  "buffer_regions bs = map (\<lambda>b. (buf_start b, buf_length b)) bs"

text \<open>The buffer counts that the successful \<open>VIDIOC_REQBUFS\<close> calls of a trace granted.\<close>

fun granted :: "event list \<Rightarrow> nat list" where
  "granted [] = []"
| "granted (Ev_ioctl d VIDIOC_REQBUFS a a' r # es) =
     (if r = -1 then granted es else unat (req_count a') # granted es)"
| "granted (e # es) = granted es"

text \<open>The pixel formats that the \<open>VIDIOC_S_FMT\<close> calls of a trace ask for.\<close>

fun requested_pixelformats :: "event list \<Rightarrow> uint32 list" where
  "requested_pixelformats [] = []"
| "requested_pixelformats (Ev_ioctl d VIDIOC_S_FMT a a' r # es) =
     pix_pixelformat a # requested_pixelformats es"
| "requested_pixelformats (e # es) = requested_pixelformats es"

text \<open>The start and length of the regions a trace maps, and of those it unmaps.\<close>

fun mmapped :: "event list \<Rightarrow> (pointer \<times> nat) list" where
  "mmapped [] = []"
| "mmapped (Ev_mmap len d off p # es) =
     (if p = MAP_FAILED then mmapped es else (p, len) # mmapped es)"
| "mmapped (e # es) = mmapped es"

fun munmapped :: "event list \<Rightarrow> (pointer \<times> nat) list" where
  "munmapped [] = []"
| "munmapped (Ev_munmap p len # es) = (p, len) # munmapped es"
| "munmapped (e # es) = munmapped es"

text \<open>Events that grant no buffers and neither map nor unmap a region.\<close>

definition quiet :: "event list \<Rightarrow> bool" where
  "quiet evs \<longleftrightarrow> granted evs = [] \<and> mmapped evs = [] \<and> munmapped evs = []"

text \<open>
  The device calls whose result the program checks are \<open>ioctl\<close> and \<open>mmap\<close>.
  \<open>failed_call\<close> is the name of such a call when it reported an error, \<open>last_call\<close> the
  last such call of a trace.
\<close>

fun is_call :: "event \<Rightarrow> bool" where
  "is_call (Ev_ioctl d request a a' r) = True"
| "is_call (Ev_mmap len d off p) = True"
| "is_call _ = False"

fun failed_call :: "event \<Rightarrow> string option" where
  "failed_call (Ev_ioctl d request a a' r) =
     (if r = -1 then Some (request_name request) else None)"
| "failed_call (Ev_mmap len d off p) = (if p = MAP_FAILED then Some ''mmap'' else None)"
| "failed_call _ = None"

fun last_call :: "event list \<Rightarrow> event option" where
  "last_call [] = None"
| "last_call (e # es) =
     (case last_call es of
        Some c \<Rightarrow> Some c
      | None \<Rightarrow> if is_call e then Some e else None)"

text \<open>
  A trace ends with a report of the camera's diagnostics callback that matches the last
  device call: severity \<open>CAMERA_ERROR\<close> and the name of the call when the call reported
  an error, severity \<open>CAMERA_FAIL\<close> when it did not.
\<close>

definition ends_with_report :: "camera_t \<Rightarrow> event list \<Rightarrow> bool" where
  "ends_with_report camera tr \<longleftrightarrow>
     (case rev tr of
        Ev_log f severity msg p # pre \<Rightarrow>
          f = ctx_log (ctx camera) \<and> p = ctx_pointer (ctx camera) \<and>
          (case last_call (rev pre) of
             None \<Rightarrow> False
           | Some c \<Rightarrow>
               (case failed_call c of
                  Some name \<Rightarrow> severity = CAMERA_ERROR \<and> msg = name
                | None \<Rightarrow> severity = CAMERA_FAIL))
      | _ \<Rightarrow> False)"

fun is_log :: "event \<Rightarrow> bool" where
  "is_log (Ev_log f severity msg p) = True"
| "is_log _ = False"

fun is_ioctl :: "int \<Rightarrow> request \<Rightarrow> event \<Rightarrow> bool" where
  "is_ioctl fd' request (Ev_ioctl fd'' request' a a' r) \<longleftrightarrow> fd'' = fd' \<and> request' = request"
| "is_ioctl fd' request _ \<longleftrightarrow> False"

fun is_close :: "int \<Rightarrow> event \<Rightarrow> bool" where
  "is_close fd' (Ev_close fd'' r) \<longleftrightarrow> fd'' = fd'"
| "is_close fd' _ \<longleftrightarrow> False"

text \<open>
  The events of one \<open>xioctl\<close> call on descriptor \<open>d\<close>: at least one and at most 100
  attempts of the same request, all but the last reporting an error, the last leaving
  the argument block \<open>a'\<close> and the result \<open>r\<close>.
\<close>

definition attempts :: "int \<Rightarrow> request \<Rightarrow> ioctl_arg \<Rightarrow> int \<Rightarrow> event list \<Rightarrow> bool" where
  "attempts d request a' r evs \<longleftrightarrow>
     evs \<noteq> [] \<and> length evs \<le> 100 \<and> list_all (is_ioctl d request) evs \<and>
     list_all (\<lambda>e. failed_call e \<noteq> None) (butlast evs) \<and>
     (case last evs of Ev_ioctl d' q a a'' r' \<Rightarrow> a'' = a' \<and> r' = r | _ \<Rightarrow> False)"

text \<open>
  The buffer array of a camera as a list, and the camera structs whose \<open>buffer_count\<close> is
  the number of entries of that array: the structs that \<open>camera_open\<close>,
  \<open>camera_buffer_prepare\<close> and \<open>camera_buffer_finish\<close> produce.
\<close>

definition buffer_list :: "camera_t \<Rightarrow> camera_buffer_t list" where
  "buffer_list camera = (case buffers camera of None \<Rightarrow> [] | Some bs \<Rightarrow> bs)"

definition camera_wf :: "camera_t \<Rightarrow> bool" where
  "camera_wf camera \<longleftrightarrow> buffer_count camera = length (buffer_list camera)"

section \<open>A device stub for concrete runs\<close>

text \<open>
  A small deterministic kernel used to run the program on concrete inputs. Its state
  is the number of calls it has answered; the calls whose number is in \<open>fails\<close> report an
  error. It grants two buffers to a buffer request among its first ten calls and three
  afterwards, each buffer eight bytes long.
\<close>

definition stub_reply :: "nat \<Rightarrow> request \<Rightarrow> ioctl_arg \<Rightarrow> ioctl_arg" where
  "stub_reply k request a =
     (case request of
        VIDIOC_QUERYCAP \<Rightarrow> a\<lparr>cap_capabilities := V4L2_CAP_VIDEO_CAPTURE OR V4L2_CAP_STREAMING\<rparr>
      | VIDIOC_REQBUFS \<Rightarrow> a\<lparr>req_count := (if k < 10 then 2 else 3)\<rparr>
      | VIDIOC_QUERYBUF \<Rightarrow> a\<lparr>buf_len := 8, buf_m_offset := 8 * buf_index a\<rparr>
      | VIDIOC_G_FMT \<Rightarrow> a\<lparr>pix_width := 640, pix_height := 480\<rparr>
      | VIDIOC_DQBUF \<Rightarrow> a\<lparr>buf_index := 0, buf_bytesused := 4\<rparr>
      | VIDIOC_G_CTRL \<Rightarrow> a\<lparr>ctrl_value := 7\<rparr>
      | _ \<Rightarrow> a)"

definition stub_kernel :: "nat list \<Rightarrow> nat kernel" where
  "stub_kernel fails =
     \<lparr>k_open = (\<lambda>k path flags. if k \<in> set fails then (-1, 2, Suc k) else (3, 0, Suc k)),
      k_ioctl = (\<lambda>k d request a.
                   if k \<in> set fails then (-1, 5, a, Suc k)
                   else (0, 0, stub_reply k request a, Suc k)),
      k_mmap = (\<lambda>k len d off.
                  if k \<in> set fails then (None, 12, Suc k)
                  else (Some (4096 + unat off), 0, Suc k)),
      k_munmap = (\<lambda>k a len. k),
      k_close = (\<lambda>k d. if k \<in> set fails then (-1, 5, Suc k) else (0, 0, Suc k)),
      k_peek = (\<lambda>k a. of_nat a)\<rparr>"

definition world0 :: "nat world" where
  "world0 = \<lparr>kernel_state = 0, errno = 0, mapped = {#}, trace = []\<rparr>"

text \<open>The camera struct that \<open>camera_open\<close> returns on the stub.\<close>

definition camera0 :: camera_t where
  "camera0 =
     \<lparr>fd = 3, initialized = False, width = 0, height = 0, buffer_count = 0,
      buffers = None, head = \<lparr>head_start = None, head_length = 0\<rparr>,
      ctx = \<lparr>ctx_pointer = NULL, ctx_log = Log_stderr\<rparr>\<rparr>"

text \<open>
  The camera struct after a successful configuration on the stub (two buffers of eight
  bytes), and a world in which its two buffers are mapped.
\<close>

definition configured_camera :: camera_t where
  "configured_camera =
     \<lparr>fd = 3, initialized = True, width = 640, height = 480, buffer_count = 2,
      buffers = Some [\<lparr>buf_start = Addr 4096, buf_length = 8\<rparr>,
                      \<lparr>buf_start = Addr 4104, buf_length = 8\<rparr>],
      head = \<lparr>head_start = Some [0, 0, 0, 0, 0, 0, 0, 0], head_length = 0\<rparr>,
      ctx = \<lparr>ctx_pointer = NULL, ctx_log = Log_stderr\<rparr>\<rparr>"

definition configured_world :: "nat world" where
  "configured_world = \<lparr>kernel_state = 10, errno = 0, mapped = {#(4096, 8), (4104, 8)#}, trace = []\<rparr>"

definition config0 :: camera_config_t where
  "config0 = \<lparr>cfg_format = 0, cfg_width = 640, cfg_height = 480,
              cfg_interval_numerator = 0, cfg_interval_denominator = 0\<rparr>"

definition config1 :: camera_config_t where
  "config1 = \<lparr>cfg_format = 0, cfg_width = 320, cfg_height = 240,
              cfg_interval_numerator = 1, cfg_interval_denominator = 30\<rparr>"

section \<open>Format tags: round trip\<close>

lemma scast_ascii:
  assumes "(c :: byte) < 0x80"
  shows "(scast c :: uint32) = ucast c"
proof -
  from assms have "uint c < 128" by (simp add: word_less_def)
  moreover have "- 128 \<le> uint c"
    using uint_ge_0 [of c] by linarith
  ultimately have "signed_take_bit 7 (uint c) = uint c"
    by (simp add: signed_take_bit_int_eq_self_iff)
  then have "sint c = uint c" by (simp add: sint_uint)
  then have "(word_of_int (sint c) :: uint32) = word_of_int (uint c)"
    by (rule arg_cong)
  then show ?thesis by (simp only: scast_eq ucast_eq)
qed

lemma char_to_uint32_ascii:
  "\<not> char_signed \<or> c < 0x80 \<Longrightarrow> char_to_uint32 char_signed c = ucast c"
  by (auto simp: char_to_uint32_def scast_ascii)

lemma low_byte_mask: "(0xff :: uint32) = mask 8"
  by (simp add: mask_eq_exp_minus_1)

lemma camera_format_name_packed:
  "camera_format_name
     (ucast (c0 :: byte) OR push_bit 8 (ucast (c1 :: byte)) OR
      push_bit 16 (ucast (c2 :: byte)) OR push_bit 24 (ucast (c3 :: byte))) =
   [c0, c1, c2, c3, 0]"
  unfolding camera_format_name_def low_byte_mask
  by (simp, intro conjI; rule bit_word_eqI)
     (auto simp add: bit_simps dest: bit_imp_le_length)

lemma four_chars: "length s = 4 \<Longrightarrow> \<exists>c0 c1 c2 c3. s = [c0, c1, c2, c3]"
  by (cases s; simp; cases "tl s"; simp; cases "tl (tl s)"; simp;
      cases "tl (tl (tl s))"; simp)

lemma push_bit_24_scast: "push_bit 24 (scast (c :: byte) :: uint32) = push_bit 24 (ucast c)"
proof (rule bit_word_eqI)
  fix n
  assume "n < LENGTH(32)"
  then have "7 \<le> n - 24 \<Longrightarrow> n - 24 = 7" by simp
  then show "bit (push_bit 24 (scast c :: uint32)) n = bit (push_bit 24 (ucast c :: uint32)) n"
    by (auto simp add: bit_simps min_def)
qed

lemma push_bit_24_char: "push_bit 24 (char_to_uint32 char_signed c) = push_bit 24 (ucast c)"
  by (simp add: char_to_uint32_def push_bit_24_scast)

text \<open>
  Where plain \<open>char\<close> is unsigned, and where the first three characters are ASCII (below
  \<open>0x80\<close>), \<open>camera_format_name\<close> applied to the identifier that \<open>camera_format_id\<close>
  computes writes the four characters back, followed by the terminator. The fourth
  character may be any byte: its sign bits are shifted out by \<open><< 24\<close>.
\<close>

lemma format_tag_roundtrip_ascii:
  assumes "length s = 4" and "\<not> char_signed \<or> list_all (\<lambda>c. c < 0x80) (take 3 s)"
  shows "map_option camera_format_name (camera_format_id char_signed s) = Some (s @ [0])"
proof -
  obtain c0 c1 c2 c3 where s: "s = [c0, c1, c2, c3]"
    using four_chars [OF assms(1)] by blast
  with assms(2) have
    "\<not> char_signed \<or> c0 < 0x80" "\<not> char_signed \<or> c1 < 0x80"
    "\<not> char_signed \<or> c2 < 0x80"
    by (auto simp: numeral_3_eq_3)
  then show ?thesis
    by (simp add: s camera_format_id_def char_at_def char_to_uint32_ascii push_bit_24_char
          camera_format_name_packed)
qed

lemma format_tag_roundtrip_examples:
  "map_option camera_format_name (camera_format_id True (map of_char ''YUYV'')) =
     Some (map of_char ''YUYV'' @ [0]) \<and>
   map_option camera_format_name (camera_format_id True [0x41, 0x41, 0x41, 0x80]) =
     Some [0x41, 0x41, 0x41, 0x80, 0] \<and>
   map_option camera_format_name (camera_format_id False [0x80, 0x41, 0x41, 0x41]) =
     Some [0x80, 0x41, 0x41, 0x41, 0]"
  using format_tag_roundtrip_ascii [of "map of_char ''YUYV''" True]
    format_tag_roundtrip_ascii [of "[0x41, 0x41, 0x41, 0x80]" True]
    format_tag_roundtrip_ascii [of "[0x80, 0x41, 0x41, 0x41]" False]
  by (simp add: numeral_3_eq_3)

text \<open>
  C5 fails on the code where plain \<open>char\<close> is signed. \<open>(uint32_t) name[0]\<close> sign-extends
  the character \<open>0x80\<close> to \<open>0xFFFFFF80\<close>, which sets every bit of the three upper bytes
  of the identifier, so the four-character string \<open>"\x80AAA"\<close> comes back as
  \<open>"\x80\xff\xff\xff"\<close>. Where plain \<open>char\<close> is unsigned the same string comes back
  unchanged.
\<close>

theorem format_tag_roundtrip_fails_signed_char:
  "length [0x80, 0x41, 0x41, 0x41 :: byte] = 4 \<and>
   map_option camera_format_name (camera_format_id True [0x80, 0x41, 0x41, 0x41]) =
     Some [0x80, 0xff, 0xff, 0xff, 0] \<and>
   map_option camera_format_name (camera_format_id True [0x80, 0x41, 0x41, 0x41]) \<noteq>
     Some ([0x80, 0x41, 0x41, 0x41] @ [0]) \<and>
   map_option camera_format_name (camera_format_id False [0x80, 0x41, 0x41, 0x41]) =
     Some ([0x80, 0x41, 0x41, 0x41] @ [0])"
  by (simp add: camera_format_id_def char_at_def char_to_uint32_def camera_format_name_def)

section \<open>Packed 4:2:2 to RGB24: clamping\<close>

lemma minmax_range: "0 \<le> minmax 0 x 255 \<and> minmax 0 x 255 \<le> 255"
  by (simp add: minmax_def)

lemma uint8_minmax: "uint (word_of_int (minmax 0 x 255) :: byte) = minmax 0 x 255"
proof -
  have "take_bit 8 (minmax 0 x 255) = minmax 0 x 255"
    using minmax_range [of x] by (simp add: take_bit_int_eq_self)
  then show ?thesis by (simp add: uint_word_of_int_eq)
qed

lemma uint_yuv2r: "uint (yuv2r y u v) = minmax 0 ((y + 359 * v) div 256) 255"
  by (simp add: yuv2r_def uint8_minmax drop_bit_eq_div)

lemma uint_yuv2g: "uint (yuv2g y u v) = minmax 0 ((y + 88 * v - 183 * u) div 256) 255"
  by (simp add: yuv2g_def uint8_minmax drop_bit_eq_div)

lemma uint_yuv2b: "uint (yuv2b y u v) = minmax 0 ((y + 454 * u) div 256) 255"
  by (simp add: yuv2b_def uint8_minmax drop_bit_eq_div)

lemma int_terms_bound:
  fixes a b c :: int
  assumes "0 \<le> a" "a < 256" "0 \<le> b" "b < 256" "0 \<le> c" "c < 256"
  shows "\<bar>a * 256 + 359 * (c - 128)\<bar> < 2 ^ 31 \<and> \<bar>a * 256 + 88 * (c - 128)\<bar> < 2 ^ 31 \<and>
         \<bar>a * 256 + 88 * (c - 128) - 183 * (b - 128)\<bar> < 2 ^ 31 \<and>
         \<bar>a * 256 + 454 * (b - 128)\<bar> < 2 ^ 31 \<and>
         \<bar>359 * (c - 128)\<bar> < 2 ^ 31 \<and> \<bar>88 * (c - 128)\<bar> < 2 ^ 31 \<and>
         \<bar>183 * (b - 128)\<bar> < 2 ^ 31 \<and> \<bar>454 * (b - 128)\<bar> < 2 ^ 31"
  by (insert assms, intro conjI; simp add: abs_less_iff)

text \<open>
  Every product, sum and difference the conversion computes from three source bytes
  lies inside the range of a 32-bit \<open>int\<close>: the model on mathematical integers loses no
  overflow.
\<close>

lemma yuv_terms_fit_int:
  fixes b0 b1 b3 :: byte
  defines "y \<equiv> push_bit 8 (uint b0)" and "u \<equiv> uint b1 - 128" and "v \<equiv> uint b3 - 128"
  shows "\<bar>y + 359 * v\<bar> < 2 ^ 31 \<and> \<bar>y + 88 * v\<bar> < 2 ^ 31 \<and>
         \<bar>y + 88 * v - 183 * u\<bar> < 2 ^ 31 \<and> \<bar>y + 454 * u\<bar> < 2 ^ 31 \<and>
         \<bar>359 * v\<bar> < 2 ^ 31 \<and> \<bar>88 * v\<bar> < 2 ^ 31 \<and> \<bar>183 * u\<bar> < 2 ^ 31 \<and>
         \<bar>454 * u\<bar> < 2 ^ 31"
  using int_terms_bound [of "uint b0" "uint b1" "uint b3"]
    uint_lt2p [of b0] uint_lt2p [of b1] uint_lt2p [of b3]
  by (simp add: assms push_bit_eq_mult)

lemma yuyv2rgb_single:
  "yuyv2rgb [b0, b1, b2, b3] 2 1 = Some (yuyv2rgb_body b0 b1 b2 b3)"
  by (simp add: yuyv2rgb_def yuyv2rgb_body_def Let_def)

text \<open>The input the specification names: \<open>Y = U = V = 255\<close> saturates red and blue.\<close>

lemma yuyv2rgb_all_255: "yuyv2rgb [255, 255, 255, 255] 2 1 = Some [255, 207, 255, 255, 207, 255]"
  by (simp add: yuyv2rgb_def yuyv2rgb_body_def Let_def yuv2r_def yuv2g_def yuv2b_def
        minmax_def)

subsection \<open>The two loops in closed form\<close>

declare yuyv2rgb_cols.simps [simp del]
declare yuyv2rgb_rows.simps [simp del]

lemma length_yuyv2rgb_body: "length (yuyv2rgb_body b0 b1 b2 b3) = 6"
  by (simp add: yuyv2rgb_body_def Let_def)

lemma push_bit_8_int: "push_bit 8 (x :: int) = x * 256"
  by (simp add: push_bit_eq_mult)

lemma minmax_max_min: "minmax 0 x 255 = max 0 (min 255 x)"
  by (simp add: minmax_def)

lemma uint_yuyv2rgb_body: "map uint (yuyv2rgb_body b0 b1 b2 b3) = clamped_rgb b0 b1 b2 b3"
  by (simp only: yuyv2rgb_body_def clamped_rgb_def Let_def list.map uint_yuv2r uint_yuv2g
        uint_yuv2b push_bit_8_int minmax_max_min)

lemma drop_4_Cons: "drop (4 + m) (a # b # c # d # xs) = drop m xs"
  by (simp add: numeral_eq_Suc)

lemma nth_4_Cons: "(a # b # c # d # xs) ! (4 + m) = xs ! m"
  by (simp add: numeral_eq_Suc)

lemma length_macropixels_rgb: "4 * n \<le> length ys \<Longrightarrow> length (macropixels_rgb n ys) = 6 * n"
  by (induction n ys rule: macropixels_rgb.induct) (simp_all add: length_yuyv2rgb_body)

lemma macropixels_rgb_add:
  "4 * m \<le> length ys \<Longrightarrow>
   macropixels_rgb (m + n) ys = macropixels_rgb m ys @ macropixels_rgb n (drop (4 * m) ys)"
  by (induction m ys rule: macropixels_rgb.induct) (simp_all add: drop_4_Cons)

lemma macropixels_rgb_chunk:
  "4 * n \<le> length ys \<Longrightarrow> k < n \<Longrightarrow>
   take 6 (drop (6 * k) (macropixels_rgb n ys)) =
     yuyv2rgb_body (ys ! (4 * k)) (ys ! (4 * k + 1)) (ys ! (4 * k + 2)) (ys ! (4 * k + 3))"
proof (induction n ys arbitrary: k rule: macropixels_rgb.induct)
  case (1 ys)
  then show ?case by simp
next
  case (2 n b0 b1 b2 b3 rest)
  show ?case
  proof (cases k)
    case 0
    then show ?thesis by (simp add: length_yuyv2rgb_body)
  next
    case (Suc k')
    with 2 have "4 * n \<le> length rest" "k' < n" by simp_all
    note ih = "2.IH" [OF this]
    have i: "4 * k = 4 + 4 * k'" "6 * k = 6 + 6 * k'"
      using Suc by simp_all
    have z: "(b0 # b1 # b2 # b3 # rest) ! (4 + 4 * k') = rest ! (4 * k')"
      by (rule nth_4_Cons)
    have d: "drop (6 + 6 * k') (macropixels_rgb (Suc n) (b0 # b1 # b2 # b3 # rest)) =
            drop (6 * k') (macropixels_rgb n rest)"
      by (simp add: length_yuyv2rgb_body)
    show ?thesis
      unfolding i add.assoc nth_4_Cons z d by (rule ih)
  qed
qed simp_all

lemma yuyv2rgb_cols_closed:
  "yuyv2rgb_cols j wd (ys, rgb, p) =
     (if (wd + 1 - j) div 2 = 0 \<or>
         4 * ((wd + 1 - j) div 2) \<le> length ys \<and>
         p + 6 * ((wd + 1 - j) div 2) \<le> length rgb
      then Some (drop (4 * ((wd + 1 - j) div 2)) ys,
                 take p rgb @ macropixels_rgb ((wd + 1 - j) div 2) ys @
                   drop (p + 6 * ((wd + 1 - j) div 2)) rgb,
                 p + 6 * ((wd + 1 - j) div 2))
      else None)"
proof (induction "(wd + 1 - j) div 2" arbitrary: j ys rgb p)
  case 0
  then have "\<not> j < wd" by (simp add: div_eq_0_iff) 
  with 0 [symmetric] show ?case
    by (subst yuyv2rgb_cols.simps) simp
next
  case (Suc n)
  then have lt: "j < wd" by (auto simp: not_less intro: ccontr)
  from Suc(2) have n: "(wd + 1 - j) div 2 = Suc n" by simp
  from Suc(2) lt have n': "n = (wd + 1 - (j + 2)) div 2" by simp
  show ?case
  proof (cases "4 \<le> length ys \<and> p + 6 \<le> length rgb")
    case False
    then have "yuyv2rgb_cols j wd (ys, rgb, p) = None"
      using lt by (subst yuyv2rgb_cols.simps) (auto split: list.splits)
    with False show ?thesis unfolding n by auto
  next
    case True
    then obtain b0 b1 b2 b3 rest where ys: "ys = b0 # b1 # b2 # b3 # rest"
      by (cases ys; simp; cases "tl ys"; simp; cases "tl (tl ys)"; simp;
          cases "tl (tl (tl ys))"; simp)
    let ?rgb1 = "take p rgb @ yuyv2rgb_body b0 b1 b2 b3 @ drop (p + 6) rgb"
    have l1: "length ?rgb1 = length rgb" using True by (simp add: length_yuyv2rgb_body)
    have step: "yuyv2rgb_cols j wd (ys, rgb, p) = yuyv2rgb_cols (j + 2) wd (rest, ?rgb1, p + 6)"
      using lt True ys by (subst yuyv2rgb_cols.simps) simp
    have tk: "take (p + 6) ?rgb1 = take p rgb @ yuyv2rgb_body b0 b1 b2 b3"
      using True by (simp add: length_yuyv2rgb_body)
    have a1: "drop (p + 6) ?rgb1 = drop (p + 6) rgb"
      using True by (simp add: length_yuyv2rgb_body)
    have a2: "p + 6 + 6 * n = 6 * n + (p + 6)" "p + 6 * Suc n = 6 * n + (p + 6)"
      by simp_all
    have "drop (6 * n + (p + 6)) ?rgb1 = drop (6 * n) (drop (p + 6) ?rgb1)"
      by (rule drop_drop [symmetric])
    also have "\<dots> = drop (6 * n) (drop (p + 6) rgb)"
      by (simp only: a1)
    also have "\<dots> = drop (6 * n + (p + 6)) rgb"
      by (rule drop_drop)
    finally have dr: "drop (p + 6 + 6 * n) ?rgb1 = drop (p + 6 * Suc n) rgb"
      by (simp only: a2)
    show ?thesis
      unfolding step Suc(1) [OF n', of rest ?rgb1 "p + 6"] n' [symmetric] n l1 tk dr
      using True by (auto simp: ys drop_4_Cons)
  qed
qed


lemma yuyv2rgb_cols_row:
  "yuyv2rgb_cols 0 wd (ys, rgb, p) =
     (if (wd + 1) div 2 = 0 \<or>
         4 * ((wd + 1) div 2) \<le> length ys \<and> p + 6 * ((wd + 1) div 2) \<le> length rgb
      then Some (drop (4 * ((wd + 1) div 2)) ys,
                 take p rgb @ macropixels_rgb ((wd + 1) div 2) ys @
                   drop (p + 6 * ((wd + 1) div 2)) rgb,
                 p + 6 * ((wd + 1) div 2))
      else None)"
  using yuyv2rgb_cols_closed [of 0 wd ys rgb p] by simp

lemma splice_nothing: "take p rgb @ macropixels_rgb 0 ys @ drop (p + 6 * 0) rgb = rgb"
  by simp

lemma yuyv2rgb_rows_closed:
  "yuyv2rgb_rows i wd ht (ys, rgb, p) =
     (if (ht - i) * ((wd + 1) div 2) = 0 \<or>
         4 * ((ht - i) * ((wd + 1) div 2)) \<le> length ys \<and>
         p + 6 * ((ht - i) * ((wd + 1) div 2)) \<le> length rgb
      then Some (drop (4 * ((ht - i) * ((wd + 1) div 2))) ys,
                 take p rgb @ macropixels_rgb ((ht - i) * ((wd + 1) div 2)) ys @
                   drop (p + 6 * ((ht - i) * ((wd + 1) div 2))) rgb,
                 p + 6 * ((ht - i) * ((wd + 1) div 2)))
      else None)"
proof (induction "ht - i" arbitrary: i ys rgb p)
  case 0
  then have "\<not> i < ht" "ht - i = 0" by simp_all
  then show ?case by (subst yuyv2rgb_rows.simps) simp
next
  case (Suc m)
  define c where "c = (wd + 1) div 2"
  from Suc(2) have lt: "i < ht" and hi: "ht - i = Suc m" and m: "m = ht - (i + 1)"
    by simp_all
  note ih = Suc(1) [OF m, folded c_def, unfolded m [symmetric]]
  note cols = yuyv2rgb_cols_row [of wd ys rgb p, folded c_def]
  show ?case
    unfolding hi c_def [symmetric]
  proof (cases "c = 0")
    case True
    then have "yuyv2rgb_cols 0 wd (ys, rgb, p) = Some (ys, rgb, p)"
      using cols by simp
    then have "yuyv2rgb_rows i wd ht (ys, rgb, p) =
                 yuyv2rgb_rows (i + 1) wd ht (ys, rgb, p)"
      using lt by (subst yuyv2rgb_rows.simps) simp
    then show "yuyv2rgb_rows i wd ht (ys, rgb, p) =
     (if Suc m * c = 0 \<or> 4 * (Suc m * c) \<le> length ys \<and> p + 6 * (Suc m * c) \<le> length rgb
      then Some (drop (4 * (Suc m * c)) ys,
                 take p rgb @ macropixels_rgb (Suc m * c) ys @ drop (p + 6 * (Suc m * c)) rgb,
                 p + 6 * (Suc m * c))
      else None)"
      using True ih [of ys rgb p] by simp
  next
    case False
    show "yuyv2rgb_rows i wd ht (ys, rgb, p) =
     (if Suc m * c = 0 \<or> 4 * (Suc m * c) \<le> length ys \<and> p + 6 * (Suc m * c) \<le> length rgb
      then Some (drop (4 * (Suc m * c)) ys,
                 take p rgb @ macropixels_rgb (Suc m * c) ys @ drop (p + 6 * (Suc m * c)) rgb,
                 p + 6 * (Suc m * c))
      else None)"
    proof (cases "4 * c \<le> length ys \<and> p + 6 * c \<le> length rgb")
      case nofit: False
      with False cols have "yuyv2rgb_cols 0 wd (ys, rgb, p) = None" by simp
      then have "yuyv2rgb_rows i wd ht (ys, rgb, p) = None"
        using lt by (subst yuyv2rgb_rows.simps) simp
      moreover have "\<not> (4 * (Suc m * c) \<le> length ys \<and> p + 6 * (Suc m * c) \<le> length rgb)"
        using nofit by auto
      ultimately show ?thesis using False by simp
    next
      case fit: True
      let ?ys1 = "drop (4 * c) ys"
      let ?rgb1 = "take p rgb @ macropixels_rgb c ys @ drop (p + 6 * c) rgb"
      have lm: "length (macropixels_rgb c ys) = 6 * c"
        using fit by (simp add: length_macropixels_rgb)
      have l1: "length ?rgb1 = length rgb" using fit lm by simp
      from fit cols have "yuyv2rgb_cols 0 wd (ys, rgb, p) = Some (?ys1, ?rgb1, p + 6 * c)"
        by simp
      then have step: "yuyv2rgb_rows i wd ht (ys, rgb, p) =
                 yuyv2rgb_rows (i + 1) wd ht (?ys1, ?rgb1, p + 6 * c)"
        using lt by (subst yuyv2rgb_rows.simps) simp
      have e1: "Suc m * c = c + m * c" by simp
      have tk: "take (p + 6 * c) ?rgb1 = take p rgb @ macropixels_rgb c ys"
        using fit lm by simp
      have a1: "drop (p + 6 * c) ?rgb1 = drop (p + 6 * c) rgb"
        using fit lm by simp
      have a2: "p + 6 * c + 6 * (m * c) = 6 * (m * c) + (p + 6 * c)"
        "p + 6 * (c + m * c) = 6 * (m * c) + (p + 6 * c)"
        by (simp_all add: algebra_simps)
      have "drop (6 * (m * c) + (p + 6 * c)) ?rgb1 = drop (6 * (m * c)) (drop (p + 6 * c) ?rgb1)"
        by (rule drop_drop [symmetric])
      also have "\<dots> = drop (6 * (m * c)) (drop (p + 6 * c) rgb)"
        by (simp only: a1)
      also have "\<dots> = drop (6 * (m * c) + (p + 6 * c)) rgb"
        by (rule drop_drop)
      finally have dr: "drop (p + 6 * c + 6 * (m * c)) ?rgb1 = drop (p + 6 * (c + m * c)) rgb"
        by (simp only: a2)
      have dy: "drop (4 * (m * c)) ?ys1 = drop (4 * (c + m * c)) ys"
        by (simp add: algebra_simps)
      have mp: "macropixels_rgb (c + m * c) ys =
                  macropixels_rgb c ys @ macropixels_rgb (m * c) ?ys1"
        using fit by (simp add: macropixels_rgb_add)
      have cond: "(m * c = 0 \<or> 4 * (m * c) \<le> length ?ys1 \<and>
                    p + 6 * c + 6 * (m * c) \<le> length ?rgb1) \<longleftrightarrow>
                  (4 * (c + m * c) \<le> length ys \<and> p + 6 * (c + m * c) \<le> length rgb)"
        using fit unfolding l1 by auto
      have pe: "p + 6 * c + 6 * (m * c) = p + 6 * (c + m * c)" by (simp add: algebra_simps)
      note r = ih [of ?ys1 ?rgb1 "p + 6 * c"]
      show ?thesis
      proof (cases "4 * (c + m * c) \<le> length ys \<and> p + 6 * (c + m * c) \<le> length rgb")
        case A: True
        with cond have "m * c = 0 \<or> 4 * (m * c) \<le> length ?ys1 \<and>
                    p + 6 * c + 6 * (m * c) \<le> length ?rgb1" by (simp only: simp_thms)
        with r have "yuyv2rgb_rows (i + 1) wd ht (?ys1, ?rgb1, p + 6 * c) =
          Some (drop (4 * (m * c)) ?ys1,
                take (p + 6 * c) ?rgb1 @ macropixels_rgb (m * c) ?ys1 @
                  drop (p + 6 * c + 6 * (m * c)) ?rgb1,
                p + 6 * c + 6 * (m * c))"
          by (simp only: if_True)
        also have "\<dots> = Some (drop (4 * (c + m * c)) ys,
                take p rgb @ macropixels_rgb (c + m * c) ys @ drop (p + 6 * (c + m * c)) rgb,
                p + 6 * (c + m * c))"
          by (simp only: tk dr dr [unfolded pe] dy mp pe append_assoc)
        finally show ?thesis
          unfolding step e1 using A by (simp only: if_True simp_thms)
      next
        case B: False
        with cond have "\<not> (m * c = 0 \<or> 4 * (m * c) \<le> length ?ys1 \<and>
                    p + 6 * c + 6 * (m * c) \<le> length ?rgb1)" by (simp only: simp_thms)
        with r have "yuyv2rgb_rows (i + 1) wd ht (?ys1, ?rgb1, p + 6 * c) = None"
          by (simp only: if_False)
        moreover have "c + m * c \<noteq> 0" using False by simp
        ultimately show ?thesis
          unfolding step e1 using B by (simp only: if_False simp_thms)
      qed
    qed
  qed
qed


lemma yuyv2rgb_closed:
  "yuyv2rgb yuyv wd ht =
     (if unat ht * ((unat wd + 1) div 2) = 0 \<or>
         4 * (unat ht * ((unat wd + 1) div 2)) \<le> length yuyv \<and>
         6 * (unat ht * ((unat wd + 1) div 2)) \<le> unat (wd * ht * 3)
      then Some (macropixels_rgb (unat ht * ((unat wd + 1) div 2)) yuyv @
                 replicate (unat (wd * ht * 3) -
                            6 * (unat ht * ((unat wd + 1) div 2))) 0)
      else None)"
  unfolding yuyv2rgb_def
    yuyv2rgb_rows_closed [of 0 "unat wd" "unat ht" yuyv
      "replicate (unat (wd * ht * 3)) 0" 0]
  by simp

text \<open>
  C7. Let a frame of width \<open>wd\<close> and height \<open>ht\<close> hold \<open>n\<close> macropixels, \<open>(wd + 1) div 2\<close>
  in each of its \<open>ht\<close> rows, let the source have the \<open>4 * n\<close> bytes that the loops
  read and the destination of \<open>wd * ht * 3\<close> bytes the \<open>6 * n\<close> bytes that they
  write. Then \<open>yuyv2rgb\<close> returns an array of \<open>wd * ht * 3\<close> bytes, and for every
  macropixel \<open>k < n\<close> of the frame the six bytes stored at \<open>6 * k\<close>, read as unsigned
  numbers, are exactly the integer transform of source bytes \<open>4 * k\<close> to \<open>4 * k + 3\<close>
  clamped to \<open>[0, 255]\<close>: a value below 0 is stored as 0, a value above 255 as 255, and no
  channel of any pixel wraps around.
\<close>

theorem yuyv2rgb_channels_clamped:
  fixes yuyv :: "byte list" and wd ht :: uint32
  defines "n \<equiv> unat ht * ((unat wd + 1) div 2)"
  assumes "4 * n \<le> length yuyv" and "6 * n \<le> unat (wd * ht * 3)" and "k < n"
  shows "\<exists>rgb. yuyv2rgb yuyv wd ht = Some rgb \<and>
           length rgb = unat (wd * ht * 3) \<and>
           map uint (take 6 (drop (6 * k) rgb)) =
             clamped_rgb (yuyv ! (4 * k)) (yuyv ! (4 * k + 1)) (yuyv ! (4 * k + 2))
               (yuyv ! (4 * k + 3))"
proof -
  let ?rgb = "macropixels_rgb n yuyv @ replicate (unat (wd * ht * 3) - 6 * n) 0"
  have r: "yuyv2rgb yuyv wd ht = Some ?rgb"
    using assms(2,3) unfolding yuyv2rgb_closed n_def by simp
  have l: "length (macropixels_rgb n yuyv) = 6 * n"
    using assms(2) by (rule length_macropixels_rgb)
  have "6 * k + 6 \<le> 6 * n" using assms(4) by simp
  then have "take 6 (drop (6 * k) ?rgb) = take 6 (drop (6 * k) (macropixels_rgb n yuyv))"
    using l by simp
  also have "\<dots> = yuyv2rgb_body (yuyv ! (4 * k)) (yuyv ! (4 * k + 1)) (yuyv ! (4 * k + 2))
               (yuyv ! (4 * k + 3))"
    using assms(2,4) by (rule macropixels_rgb_chunk)
  finally have "map uint (take 6 (drop (6 * k) ?rgb)) =
             clamped_rgb (yuyv ! (4 * k)) (yuyv ! (4 * k + 1)) (yuyv ! (4 * k + 2))
               (yuyv ! (4 * k + 3))"
    by (simp only: uint_yuyv2rgb_body)
  moreover have "length ?rgb = unat (wd * ht * 3)"
    using l assms(3) by simp
  ultimately show ?thesis using r by blast
qed

theorem yuyv2rgb_channels_clamped_witness:
  "4 * (unat (1 :: uint32) * ((unat (4 :: uint32) + 1) div 2)) \<le>
     length [255, 255, 255, 255, 255, 255, 255, 255 :: byte] \<and>
   6 * (unat (1 :: uint32) * ((unat (4 :: uint32) + 1) div 2)) \<le> unat (4 * 1 * 3 :: uint32) \<and>
   1 < unat (1 :: uint32) * ((unat (4 :: uint32) + 1) div 2) \<and>
   (\<exists>rgb. yuyv2rgb [255, 255, 255, 255, 255, 255, 255, 255] 4 1 = Some rgb \<and>
          length rgb = 12 \<and>
          map uint (take 6 (drop 6 rgb)) = [255, 207, 255, 255, 207, 255])"
proof -
  have h: "4 * (unat (1 :: uint32) * ((unat (4 :: uint32) + 1) div 2)) \<le>
             length [255, 255, 255, 255, 255, 255, 255, 255 :: byte]"
    "6 * (unat (1 :: uint32) * ((unat (4 :: uint32) + 1) div 2)) \<le> unat (4 * 1 * 3 :: uint32)"
    "1 < unat (1 :: uint32) * ((unat (4 :: uint32) + 1) div 2)"
    by simp_all
  have c: "clamped_rgb 255 255 255 255 = [255, 207, 255, 255, 207, 255]"
    by (simp add: clamped_rgb_def)
  from yuyv2rgb_channels_clamped [OF h] c h show ?thesis
    by simp
qed

text \<open>
  The frame of four pixels in one row with every source byte 255, evaluated: both
  macropixels saturate red and blue.
\<close>

lemma yuyv2rgb_two_macropixels:
  "yuyv2rgb [255, 255, 255, 255, 255, 255, 255, 255] 4 1 =
     Some [255, 207, 255, 255, 207, 255, 255, 207, 255, 255, 207, 255]"
proof -
  have n: "unat (1 :: uint32) * ((unat (4 :: uint32) + 1) div 2) = Suc (Suc 0)"
    by simp
  have m: "macropixels_rgb (Suc (Suc 0)) [255, 255, 255, 255, 255, 255, 255, 255] =
             [255, 207, 255, 255, 207, 255, 255, 207, 255, 255, 207, 255]"
    by (simp add: yuyv2rgb_body_def Let_def yuv2r_def yuv2g_def yuv2b_def minmax_def)
  show ?thesis
    unfolding yuyv2rgb_closed n m by simp
qed


section \<open>Traces of the device calls\<close>

lemma granted_append: "granted (xs @ ys) = granted xs @ granted ys"
  by (induction xs rule: granted.induct) auto

lemma mmapped_append: "mmapped (xs @ ys) = mmapped xs @ mmapped ys"
  by (induction xs rule: mmapped.induct) auto

lemma munmapped_append: "munmapped (xs @ ys) = munmapped xs @ munmapped ys"
  by (induction xs rule: munmapped.induct) auto

lemma last_call_append:
  "last_call (xs @ ys) = (case last_call ys of Some c \<Rightarrow> Some c | None \<Rightarrow> last_call xs)"
  by (induction xs) (auto split: option.splits)

lemma is_ioctl_cases: "is_ioctl d q e \<Longrightarrow> \<exists>a a' r. e = Ev_ioctl d q a a' r"
  by (cases e) auto

lemma ioctls_not_mapping:
  "list_all (is_ioctl d q) evs \<Longrightarrow> mmapped evs = [] \<and> munmapped evs = []"
  by (induction evs) (auto dest!: is_ioctl_cases)

lemma granted_ioctl:
  "granted (Ev_ioctl d q a a' r # es) =
     (if q = VIDIOC_REQBUFS \<and> r \<noteq> -1 then unat (req_count a') # granted es else granted es)"
  by (cases q) auto

lemma failed_ioctls_grant_nothing:
  "list_all (is_ioctl d q) evs \<Longrightarrow> list_all (\<lambda>e. failed_call e \<noteq> None) evs \<Longrightarrow> granted evs = []"
  by (induction evs) (auto simp: granted_ioctl dest!: is_ioctl_cases split: if_splits)

lemma attempts_last:
  assumes "attempts d q a' r evs"
  shows "\<exists>a. evs = butlast evs @ [Ev_ioctl d q a a' r]"
proof -
  from assms have ne: "evs \<noteq> []" and all: "list_all (is_ioctl d q) evs"
    and l: "(case last evs of Ev_ioctl d' q' a a'' r' \<Rightarrow> a'' = a' \<and> r' = r | _ \<Rightarrow> False)"
    by (auto simp: attempts_def)
  from ne all have "is_ioctl d q (last evs)" by (simp add: list_all_iff)
  then obtain a a'' r' where e: "last evs = Ev_ioctl d q a a'' r'" using is_ioctl_cases by blast
  with l have "last evs = Ev_ioctl d q a a' r" by simp
  with ne show ?thesis by (metis append_butlast_last_id)
qed

lemma attempts_granted:
  assumes "attempts d q a' r evs"
  shows "granted evs = (if q = VIDIOC_REQBUFS \<and> r \<noteq> -1 then [unat (req_count a')] else [])"
proof -
  obtain a where e: "evs = butlast evs @ [Ev_ioctl d q a a' r]" using attempts_last[OF assms] by blast
  from assms have "list_all (is_ioctl d q) (butlast evs)" "list_all (\<lambda>e. failed_call e \<noteq> None) (butlast evs)"
    by (auto simp: attempts_def list_all_iff dest: in_set_butlastD)
  then have "granted (butlast evs) = []" by (rule failed_ioctls_grant_nothing)
  then have "granted evs = granted [Ev_ioctl d q a a' r]" by (subst e) (simp add: granted_append)
  then show ?thesis by (simp add: granted_ioctl)
qed

lemma attempts_mapping: "attempts d q a' r evs \<Longrightarrow> mmapped evs = [] \<and> munmapped evs = []"
  by (auto simp: attempts_def dest: ioctls_not_mapping)

lemma attempts_last_call:
  assumes "attempts d q a' r evs"
  shows "\<exists>c. last_call (pre @ evs) = Some c \<and> failed_call c = (if r = -1 then Some (request_name q) else None)"
proof -
  obtain a where e: "evs = butlast evs @ [Ev_ioctl d q a a' r]" using attempts_last[OF assms] by blast
  have "last_call (pre @ evs) = Some (Ev_ioctl d q a a' r)"
    by (subst e) (simp add: last_call_append)
  then show ?thesis by simp
qed

lemma ioctl_effect:
  assumes "ioctl K d q a w = (r, a', w')"
  shows "mapped w' = mapped w \<and> trace w' = trace w @ [Ev_ioctl d q a a' r]"
  using assms by (auto simp: ioctl_def emit_def split: prod.splits)

lemma xioctl_loop_effect:
  "xioctl_loop K (Suc n) d q a w = (r, a', w') \<Longrightarrow>
     mapped w' = mapped w \<and>
     (\<exists>evs. trace w' = trace w @ evs \<and> evs \<noteq> [] \<and> length evs \<le> Suc n \<and>
        list_all (is_ioctl d q) evs \<and> list_all (\<lambda>e. failed_call e \<noteq> None) (butlast evs) \<and>
        (case last evs of Ev_ioctl d' q' a0 a'' r' \<Rightarrow> a'' = a' \<and> r' = r | _ \<Rightarrow> False))"
proof (induction n arbitrary: a w)
  case 0
  obtain r1 a1 w1 where i: "ioctl K d q a w = (r1, a1, w1)" by (cases "ioctl K d q a w") 
  from ioctl_effect[OF i] 0 i show ?case
    by (auto split: if_splits)
next
  case (Suc n)
  obtain r1 a1 w1 where i: "ioctl K d q a w = (r1, a1, w1)" by (cases "ioctl K d q a w") 
  note eff = ioctl_effect[OF i]
  show ?case
  proof (cases "r1 \<noteq> -1 \<or> errno w1 \<noteq> EINTR")
    case True
    with Suc.prems i have "r = r1" "a' = a1" "w' = w1" by auto
    with eff show ?thesis by auto
  next
    case False
    with Suc.prems i have rec: "xioctl_loop K (Suc n) d q a1 w1 = (r, a', w')" by auto
    from Suc.IH[OF rec] obtain evs where
      m: "mapped w' = mapped w1" and t: "trace w' = trace w1 @ evs" and ne: "evs \<noteq> []"
      and len: "length evs \<le> Suc n" and all: "list_all (is_ioctl d q) evs"
      and fl: "list_all (\<lambda>e. failed_call e \<noteq> None) (butlast evs)"
      and l: "(case last evs of Ev_ioctl d' q' a0 a'' r' \<Rightarrow> a'' = a' \<and> r' = r | _ \<Rightarrow> False)"
      by blast
    let ?e = "Ev_ioctl d q a a1 r1"
    from False have f: "failed_call ?e \<noteq> None" by simp
    have "trace w' = trace w @ (?e # evs)" using eff t by simp
    moreover have "list_all (is_ioctl d q) (?e # evs)" using all by simp
    moreover have "list_all (\<lambda>e. failed_call e \<noteq> None) (butlast (?e # evs))" using fl f ne by simp
    moreover have "(case last (?e # evs) of Ev_ioctl d' q' a0 a'' r' \<Rightarrow> a'' = a' \<and> r' = r | _ \<Rightarrow> False)"
      using l ne by simp
    moreover have "length (?e # evs) \<le> Suc (Suc n)" using len by simp
    moreover have "?e # evs \<noteq> []" by simp
    ultimately have "\<exists>evs. trace w' = trace w @ evs \<and> evs \<noteq> [] \<and> length evs \<le> Suc (Suc n) \<and>
        list_all (is_ioctl d q) evs \<and> list_all (\<lambda>e. failed_call e \<noteq> None) (butlast evs) \<and>
        (case last evs of Ev_ioctl d' q' a0 a'' r' \<Rightarrow> a'' = a' \<and> r' = r | _ \<Rightarrow> False)"
      by (intro exI[of _ "?e # evs"] conjI)
    then show ?thesis using m eff by simp
  qed
qed

lemma xioctl_effect:
  assumes "xioctl K d q a w = (r, a', w')"
  shows "mapped w' = mapped w \<and> (\<exists>evs. trace w' = trace w @ evs \<and> attempts d q a' r evs)"
proof -
  have "xioctl_loop K (Suc 99) d q a w = (r, a', w')" using assms by (simp add: xioctl_def)
  from xioctl_loop_effect[OF this] show ?thesis unfolding attempts_def by auto
qed

section \<open>Releasing the buffers\<close>

declare free_buffers_loop.simps [simp del]
declare camera_buffer_prepare_loop.simps [simp del]
declare camera_start_loop.simps [simp del]

lemma regions_append: "regions (xs @ ys) = regions xs + regions ys"
  by (induction xs) (auto split: pointer.splits)

lemma munmap_effect:
  "trace (munmap K p len w) = trace w @ [Ev_munmap p len] \<and>
   mapped (munmap K p len w) = mapped w - regions [\<lparr>buf_start = p, buf_length = len\<rparr>]"
  by (cases p) (simp_all add: munmap_def emit_def)

lemma free_buffers_loop_effect:
  assumes "cnt \<le> length (buffer_list camera)"
  shows "i \<le> cnt \<Longrightarrow>
    \<exists>w'. free_buffers_loop K camera i cnt w = Some w' \<and>
      trace w' = trace w @ munmap_events (drop i (take cnt (buffer_list camera))) \<and>
      mapped w' = mapped w - regions (drop i (take cnt (buffer_list camera)))"
proof (induction "cnt - i" arbitrary: i w)
  case 0
  then show ?case
    by (subst free_buffers_loop.simps) (simp add: munmap_events_def)
next
  case (Suc n)
  then have lt: "i < cnt" by simp
  with assms obtain bs where bs: "buffers camera = Some bs" "buffer_list camera = bs" "i < length bs"
    by (cases "buffers camera") (auto simp: buffer_list_def)
  let ?w1 = "munmap K (buf_start (bs ! i)) (buf_length (bs ! i)) w"
  from Suc(2) lt have "n = cnt - Suc i" "Suc i \<le> cnt" by simp_all
  from Suc(1)[OF this, of ?w1] obtain w' where
    r: "free_buffers_loop K camera (Suc i) cnt ?w1 = Some w'"
    and t: "trace w' = trace ?w1 @ munmap_events (drop (Suc i) (take cnt bs))"
    and m: "mapped w' = mapped ?w1 - regions (drop (Suc i) (take cnt bs))"
    using bs by auto
  have d: "drop i (take cnt bs) = bs ! i # drop (Suc i) (take cnt bs)"
    using lt bs assms by (metis Cons_nth_drop_Suc length_take min.absorb2 nth_take)
  have "free_buffers_loop K camera i cnt w = Some w'"
    using lt bs r by (subst free_buffers_loop.simps) simp
  moreover have "trace w' = trace w @ munmap_events (drop i (take cnt bs))"
    using t munmap_effect[of K "buf_start (bs ! i)" "buf_length (bs ! i)" w]
    by (simp add: d munmap_events_def)
  moreover have "mapped w' = mapped w - regions (drop i (take cnt bs))"
    using m munmap_effect[of K "buf_start (bs ! i)" "buf_length (bs ! i)" w]
    by (simp add: d split: pointer.splits)
  ultimately show ?case using bs by simp
qed

lemma free_buffers_effect:
  assumes "cnt \<le> length (buffer_list camera)"
  shows "\<exists>w'. free_buffers K camera cnt w = Some (camera\<lparr>buffers := None, buffer_count := 0\<rparr>, w') \<and>
      trace w' = trace w @ munmap_events (take cnt (buffer_list camera)) @ [Ev_free Obj_buffers] \<and>
      mapped w' = mapped w - regions (take cnt (buffer_list camera))"
  using free_buffers_loop_effect[OF assms, of 0 K w]
  by (auto simp: free_buffers_def emit_def)

lemma camera_buffer_finish_effect:
  assumes "camera_wf camera"
  shows "\<exists>w'. camera_buffer_finish K camera w =
           Some (camera\<lparr>buffers := None, buffer_count := 0,
                        head := \<lparr>head_start = None, head_length = 0\<rparr>\<rparr>, w') \<and>
      trace w' = trace w @ munmap_events (buffer_list camera) @ [Ev_free Obj_buffers, Ev_free Obj_head] \<and>
      mapped w' = mapped w - regions (buffer_list camera)"
proof -
  from assms have "buffer_count camera \<le> length (buffer_list camera)" by (simp add: camera_wf_def)
  from free_buffers_effect[OF this, of K w] assms show ?thesis
    by (auto simp: camera_buffer_finish_def emit_def camera_wf_def)
qed

section \<open>Opening and capturing\<close>

lemma xioctl_first:
  assumes "ioctl K d q a w = (r, a', w')" and "r \<noteq> -1 \<or> errno w' \<noteq> EINTR"
  shows "xioctl K d q a w = (r, a', w')"
proof -
  have "xioctl_loop K (Suc n) d q a w = (r, a', w')" for n
    using assms by auto
  from this [of 99] show ?thesis by (simp add: xioctl_def)
qed

text \<open>
  C9. A camera that \<open>camera_open\<close> returns has width, height, buffer count and head
  length zero, no buffer array and no head memory, is not initialised, and carries the
  standard-error callback with a null user pointer.
\<close>

theorem camera_open_initial_state:
  assumes "camera_open K device w = (Some camera, w')"
  shows "width camera = 0 \<and> height camera = 0 \<and> buffer_count camera = 0 \<and>
         head_length (head camera) = 0 \<and> buffers camera = None \<and>
         head_start (head camera) = None \<and> \<not> initialized camera \<and>
         ctx_log (ctx camera) = Log_stderr \<and> ctx_pointer (ctx camera) = NULL"
  using assms by (auto simp: camera_open_def split: prod.splits if_splits)

theorem camera_open_initial_state_witness:
  "camera_open (stub_kernel []) ''/dev/video0'' world0 =
     (Some camera0, \<lparr>kernel_state = 1, errno = 0, mapped = {#},
                     trace = [Ev_open ''/dev/video0'' [O_RDWR, O_NONBLOCK] 3]\<rparr>) \<and>
   width camera0 = 0 \<and> height camera0 = 0 \<and> buffer_count camera0 = 0 \<and>
   head_length (head camera0) = 0 \<and> buffers camera0 = None \<and>
   head_start (head camera0) = None \<and> \<not> initialized camera0 \<and>
   ctx_log (ctx camera0) = Log_stderr \<and> ctx_pointer (ctx camera0) = NULL"
proof -
  have h: "camera_open (stub_kernel []) ''/dev/video0'' world0 =
     (Some camera0, \<lparr>kernel_state = 1, errno = 0, mapped = {#},
                     trace = [Ev_open ''/dev/video0'' [O_RDWR, O_NONBLOCK] 3]\<rparr>)"
    by (simp add: camera_open_def sys_open_def stub_kernel_def world0_def camera0_def emit_def)
  from camera_open_initial_state [OF h] h show ?thesis by simp
qed

text \<open>
  C3. When the dequeue \<open>xioctl\<close> of \<open>camera_capture\<close> reports an error, the capture
  returns false with the camera struct as it was (so the head array and its recorded
  length are untouched), and the only calls it has made are the at most 100 attempts of
  the dequeue request: nothing waits for a buffer.
\<close>

theorem camera_capture_dequeue_failure:
  assumes "xioctl K (fd camera) VIDIOC_DQBUF
             (zero_arg\<lparr>arg_type := V4L2_BUF_TYPE_VIDEO_CAPTURE,
                        arg_memory := V4L2_MEMORY_MMAP\<rparr>) w = (-1, buf, w1)"
  shows "camera_capture K camera w = Some (False, camera, w1) \<and>
         mapped w1 = mapped w \<and>
         (\<exists>evs. trace w1 = trace w @ evs \<and> length evs \<le> 100 \<and>
                list_all (is_ioctl (fd camera) VIDIOC_DQBUF) evs)"
  using assms xioctl_effect [OF assms]
  by (auto simp: camera_capture_def attempts_def)

theorem camera_capture_dequeue_failure_witness:
  "xioctl (stub_kernel [0]) (fd camera0) VIDIOC_DQBUF
     (zero_arg\<lparr>arg_type := V4L2_BUF_TYPE_VIDEO_CAPTURE, arg_memory := V4L2_MEMORY_MMAP\<rparr>)
     world0 =
   (-1, zero_arg\<lparr>arg_type := V4L2_BUF_TYPE_VIDEO_CAPTURE, arg_memory := V4L2_MEMORY_MMAP\<rparr>,
    world0\<lparr>kernel_state := 1, errno := 5,
      trace := [Ev_ioctl 3 VIDIOC_DQBUF
        (zero_arg\<lparr>arg_type := V4L2_BUF_TYPE_VIDEO_CAPTURE, arg_memory := V4L2_MEMORY_MMAP\<rparr>)
        (zero_arg\<lparr>arg_type := V4L2_BUF_TYPE_VIDEO_CAPTURE, arg_memory := V4L2_MEMORY_MMAP\<rparr>)
        (-1)]\<rparr>) \<and>
   map_option (\<lambda>(ok, camera, w). (ok, head camera = head camera0))
     (camera_capture (stub_kernel [0]) camera0 world0) = Some (False, True)"
proof -
  have h: "xioctl (stub_kernel [0]) (fd camera0) VIDIOC_DQBUF
     (zero_arg\<lparr>arg_type := V4L2_BUF_TYPE_VIDEO_CAPTURE, arg_memory := V4L2_MEMORY_MMAP\<rparr>)
     world0 =
   (-1, zero_arg\<lparr>arg_type := V4L2_BUF_TYPE_VIDEO_CAPTURE, arg_memory := V4L2_MEMORY_MMAP\<rparr>,
    world0\<lparr>kernel_state := 1, errno := 5,
      trace := [Ev_ioctl 3 VIDIOC_DQBUF
        (zero_arg\<lparr>arg_type := V4L2_BUF_TYPE_VIDEO_CAPTURE, arg_memory := V4L2_MEMORY_MMAP\<rparr>)
        (zero_arg\<lparr>arg_type := V4L2_BUF_TYPE_VIDEO_CAPTURE, arg_memory := V4L2_MEMORY_MMAP\<rparr>)
        (-1)]\<rparr>)"
    by (rule xioctl_first)
       (simp_all add: ioctl_def stub_kernel_def world0_def camera0_def emit_def EINTR_def)
  from camera_capture_dequeue_failure [OF h] h show ?thesis by simp
qed

section \<open>The control read\<close>

text \<open>
  C10. When the \<open>VIDIOC_G_CTRL\<close> call of \<open>camera_control_get\<close> reports an error, the
  function returns false and the caller's variable keeps its value; otherwise it returns
  true and the variable holds the value of the control.
\<close>

theorem camera_control_get_out_parameter:
  assumes "ioctl K (fd camera) VIDIOC_G_CTRL (zero_arg\<lparr>ctrl_id := cid, ctrl_value := 0\<rparr>) w =
             (r, ctrl, w1)"
  shows "(r = -1 \<longrightarrow> (\<exists>w'. camera_control_get K camera cid val w = (False, val, w'))) \<and>
         (r \<noteq> -1 \<longrightarrow> camera_control_get K camera cid val w = (True, ctrl_value ctrl, w1))"
  using assms by (simp add: camera_control_get_def error_def)

theorem camera_control_get_out_parameter_witness:
  "fst (ioctl (stub_kernel [0]) (fd camera0) VIDIOC_G_CTRL
          (zero_arg\<lparr>ctrl_id := 9, ctrl_value := 0\<rparr>) world0) = -1 \<and>
   fst (camera_control_get (stub_kernel [0]) camera0 9 42 world0) = False \<and>
   fst (snd (camera_control_get (stub_kernel [0]) camera0 9 42 world0)) = 42 \<and>
   fst (ioctl (stub_kernel []) (fd camera0) VIDIOC_G_CTRL
          (zero_arg\<lparr>ctrl_id := 9, ctrl_value := 0\<rparr>) world0) = 0 \<and>
   fst (camera_control_get (stub_kernel []) camera0 9 42 world0) = True \<and>
   fst (snd (camera_control_get (stub_kernel []) camera0 9 42 world0)) = 7"
proof -
  obtain r ctrl w1 where f: "ioctl (stub_kernel [0]) (fd camera0) VIDIOC_G_CTRL
          (zero_arg\<lparr>ctrl_id := 9, ctrl_value := 0\<rparr>) world0 = (r, ctrl, w1)"
    by (rule prod_cases3)
  then have r: "r = -1"
    by (auto simp: ioctl_def stub_kernel_def world0_def)
  obtain r' ctrl' w1' where g: "ioctl (stub_kernel []) (fd camera0) VIDIOC_G_CTRL
          (zero_arg\<lparr>ctrl_id := 9, ctrl_value := 0\<rparr>) world0 = (r', ctrl', w1')"
    by (rule prod_cases3)
  then have r': "r' = 0" "ctrl_value ctrl' = 7"
    by (auto simp: ioctl_def stub_kernel_def world0_def stub_reply_def)
  from camera_control_get_out_parameter [OF f, of 42]
       camera_control_get_out_parameter [OF g, of 42] f g r r'
  show ?thesis by auto
qed

section \<open>The pixel format of a format request\<close>

lemma xioctl_loop_first_event:
  assumes "xioctl_loop K (Suc n) d q a w = (r, a', w')"
  shows "\<exists>a1 r1 rest. trace w' = trace w @ Ev_ioctl d q a a1 r1 # rest"
proof -
  obtain r1 a1 w1 where i: "ioctl K d q a w = (r1, a1, w1)" by (rule prod_cases3)
  show ?thesis
  proof (cases "r1 \<noteq> -1 \<or> errno w1 \<noteq> EINTR")
    case True
    with assms i have "w' = w1" by auto
    with ioctl_effect [OF i] show ?thesis by simp
  next
    case False
    with assms i have rec: "xioctl_loop K n d q a1 w1 = (r, a', w')" by auto
    show ?thesis
    proof (cases n)
      case 0
      with rec have "w' = w1" by simp
      with ioctl_effect [OF i] show ?thesis by simp
    next
      case (Suc m)
      with rec have "xioctl_loop K (Suc m) d q a1 w1 = (r, a', w')" by simp
      from xioctl_loop_effect [OF this] ioctl_effect [OF i] show ?thesis by auto
    qed
  qed
qed

lemma xioctl_first_event:
  assumes "xioctl K d q a w = (r, a', w')"
  shows "\<exists>a1 r1 rest. trace w' = trace w @ Ev_ioctl d q a a1 r1 # rest"
  using assms xioctl_loop_first_event [of K 99 d q a w r a' w'] by (simp add: xioctl_def)

text \<open>
  Whatever the configuration asks for, the format request that \<open>camera_set_config\<close>
  issues carries the pixel format 1: the logical or of C yields 1 because the constant
  \<open>V4L2_PIX_FMT_YUYV\<close> is nonzero.
\<close>

lemma camera_set_config_pixelformat_is_one:
  assumes "cfg_width config > 0" and "cfg_height config > 0"
    and "camera_set_config K camera config w = (ok, w')"
  shows "\<exists>a a1 r1 rest. trace w' = trace w @ Ev_ioctl (fd camera) VIDIOC_S_FMT a a1 r1 # rest \<and>
           pix_pixelformat a = 1"
proof -
  let ?a = "zero_arg\<lparr>arg_type := V4L2_BUF_TYPE_VIDEO_CAPTURE, pix_width := cfg_width config,
              pix_height := cfg_height config,
              pix_pixelformat := logical_or (cfg_format config) V4L2_PIX_FMT_YUYV,
              pix_field := V4L2_FIELD_NONE\<rparr>"
  obtain r fmt w1 where x: "xioctl K (fd camera) VIDIOC_S_FMT ?a w = (r, fmt, w1)"
    by (rule prod_cases3)
  from xioctl_first_event [OF x] obtain a1 r1 rest where
    t: "trace w1 = trace w @ Ev_ioctl (fd camera) VIDIOC_S_FMT ?a a1 r1 # rest" by blast
  have p: "pix_pixelformat ?a = 1" by (simp add: logical_or_def V4L2_PIX_FMT_YUYV_def)
  show ?thesis
  proof (cases "r = -1")
    case True
    with assms x have "w' = emit (Ev_log (ctx_log (ctx camera)) CAMERA_ERROR ''VIDIOC_S_FMT''
                              (ctx_pointer (ctx camera))) w1"
      by (auto simp: camera_set_config_def Let_def error_def)
    with t p show ?thesis by (auto simp: emit_def)
  next
    case False
    show ?thesis
    proof (cases "cfg_interval_numerator config \<noteq> 0 \<and> cfg_interval_denominator config \<noteq> 0")
      case np: False
      with False assms x have "w' = w1" by (auto simp: camera_set_config_def Let_def)
      with t p show ?thesis by auto
    next
      case True
      let ?b = "zero_arg\<lparr>arg_type := V4L2_BUF_TYPE_VIDEO_CAPTURE,
                  parm_numerator := cfg_interval_numerator config,
                  parm_denominator := cfg_interval_denominator config\<rparr>"
      obtain r2 parm w2 where y: "xioctl K (fd camera) VIDIOC_S_PARM ?b w1 = (r2, parm, w2)"
        by (rule prod_cases3)
      from xioctl_effect [OF y] obtain evs where t2: "trace w2 = trace w1 @ evs" by blast
      from True False assms x y have
        "w' = w2 \<or> w' = emit (Ev_log (ctx_log (ctx camera)) CAMERA_ERROR ''VIDIOC_S_PARM''
                              (ctx_pointer (ctx camera))) w2"
        by (auto simp: camera_set_config_def Let_def error_def split: if_splits)
      with t t2 p show ?thesis by (auto simp: emit_def)
    qed
  qed
qed

text \<open>
  C1 fails on the code. With width 640, height 480 and format tag zero, the format
  request carries the pixel format 1, which is not the packed 4:2:2 identifier.
\<close>

theorem camera_set_config_zero_format_requests_one:
  "requested_pixelformats
     (trace (snd (camera_set_config (stub_kernel []) camera0
        \<lparr>cfg_format = 0, cfg_width = 640, cfg_height = 480,
         cfg_interval_numerator = 0, cfg_interval_denominator = 0\<rparr> world0))) = [1] \<and>
   V4L2_PIX_FMT_YUYV \<noteq> 1"
proof -
  let ?a = "zero_arg\<lparr>arg_type := V4L2_BUF_TYPE_VIDEO_CAPTURE, pix_width := 640,
              pix_height := 480, pix_pixelformat := 1, pix_field := V4L2_FIELD_NONE\<rparr>"
  have "xioctl (stub_kernel []) 3 VIDIOC_S_FMT ?a world0 =
          (0, ?a, world0\<lparr>kernel_state := 1,
                      trace := [Ev_ioctl 3 VIDIOC_S_FMT ?a ?a 0]\<rparr>)"
    by (rule xioctl_first)
       (simp_all add: ioctl_def stub_kernel_def stub_reply_def world0_def emit_def)
  then show ?thesis
    by (simp add: camera_set_config_def camera0_def logical_or_def V4L2_PIX_FMT_YUYV_def)
qed

section \<open>Closing\<close>

lemma error_effect:
  "error camera msg w = (b, w') \<Longrightarrow>
     \<not> b \<and> mapped w' = mapped w \<and>
     trace w' = trace w @ [Ev_log (ctx_log (ctx camera)) CAMERA_ERROR msg (ctx_pointer (ctx camera))]"
  by (auto simp: error_def emit_def)

lemma camera_stop_effect:
  assumes "camera_stop K camera w = (b, w1)"
  shows "mapped w1 = mapped w \<and>
     (\<exists>so lg r a'. trace w1 = trace w @ so @ lg \<and> attempts (fd camera) VIDIOC_STREAMOFF a' r so \<and>
        b = (r \<noteq> -1) \<and>
        lg = (if b then [] else [Ev_log (ctx_log (ctx camera)) CAMERA_ERROR ''VIDIOC_STREAMOFF''
                            (ctx_pointer (ctx camera))]))"
proof -
  obtain r a' w0 where x: "xioctl K (fd camera) VIDIOC_STREAMOFF
      (zero_arg\<lparr>arg_type := V4L2_BUF_TYPE_VIDEO_CAPTURE\<rparr>) w = (r, a', w0)" by (rule prod_cases3)
  from xioctl_effect [OF x] obtain so where
    m: "mapped w0 = mapped w" and t: "trace w0 = trace w @ so"
    and a: "attempts (fd camera) VIDIOC_STREAMOFF a' r so" by blast
  show ?thesis
  proof (cases "r = -1")
    case True
    with assms x have "error camera ''VIDIOC_STREAMOFF'' w0 = (b, w1)"
      by (simp add: camera_stop_def)
    from error_effect [OF this] m t a True show ?thesis by auto
  next
    case False
    with assms x have "b" "w1 = w0" by (auto simp: camera_stop_def)
    with m t a False show ?thesis by auto
  qed
qed

lemma sys_close_effect:
  "sys_close K d w = (r, w') \<Longrightarrow> mapped w' = mapped w \<and> trace w' = trace w @ [Ev_close d r]"
  by (auto simp: sys_close_def emit_def split: prod.splits)

lemma camera_close_loop_effect:
  "mapped (camera_close_loop K (Suc n) camera w) = mapped w \<and>
   (\<exists>cl. trace (camera_close_loop K (Suc n) camera w) = trace w @ cl \<and> cl \<noteq> [] \<and>
      length cl \<le> Suc n \<and> list_all (is_close (fd camera)) cl)"
proof (induction n arbitrary: w)
  case 0
  obtain r w1 where c: "sys_close K (fd camera) w = (r, w1)" by (rule prod.exhaust)
  from sys_close_effect [OF c] c show ?case by auto
next
  case (Suc n)
  obtain r w1 where c: "sys_close K (fd camera) w = (r, w1)" by (rule prod.exhaust)
  note e = sys_close_effect [OF c]
  show ?case
  proof (cases "r \<noteq> -1")
    case True
    with c e show ?thesis by auto
  next
    case False
    with c have eq: "camera_close_loop K (Suc (Suc n)) camera w = camera_close_loop K (Suc n) camera w1"
      by simp
    from Suc.IH [of w1] obtain cl where
      "mapped (camera_close_loop K (Suc n) camera w1) = mapped w1"
      "trace (camera_close_loop K (Suc n) camera w1) = trace w1 @ cl" "cl \<noteq> []"
      "length cl \<le> Suc n" "list_all (is_close (fd camera)) cl" by blast
    with e have "mapped (camera_close_loop K (Suc n) camera w1) = mapped w \<and>
      trace (camera_close_loop K (Suc n) camera w1) = trace w @ (Ev_close (fd camera) r # cl) \<and>
      Ev_close (fd camera) r # cl \<noteq> [] \<and> length (Ev_close (fd camera) r # cl) \<le> Suc (Suc n) \<and>
      list_all (is_close (fd camera)) (Ev_close (fd camera) r # cl)" by simp
    then show ?thesis unfolding eq by blast
  qed
qed

lemma camera_close_loop_ten:
  "mapped (camera_close_loop K 10 camera w) = mapped w \<and>
   (\<exists>cl. trace (camera_close_loop K 10 camera w) = trace w @ cl \<and> cl \<noteq> [] \<and>
      length cl \<le> 10 \<and> list_all (is_close (fd camera)) cl)"
  using camera_close_loop_effect [of K 9 camera w] by simp

text \<open>
  C8. \<open>camera_close\<close> never returns anything but true, whatever the device answers.
  On a camera whose buffer count is the length of its buffer array it is defined, and
  when buffers are allocated its calls are, in this order: the stream-off attempts (and
  the report of their failure, if any), one \<open>munmap\<close> per buffer, the release of the
  buffer array and of the head memory, the at most ten \<open>close\<close> attempts, and the release
  of the camera struct.
\<close>

theorem camera_close_returns_true:
  "(\<forall>b w'. camera_close K camera w = Some (b, w') \<longrightarrow> b) \<and>
   (camera_wf camera \<longrightarrow>
     (\<exists>w' so lg cl.
        camera_close K camera w = Some (True, w') \<and>
        mapped w' = mapped w - regions (buffer_list camera) \<and>
        cl \<noteq> [] \<and> length cl \<le> 10 \<and> list_all (is_close (fd camera)) cl \<and>
        (buffer_count camera = 0 \<longrightarrow> trace w' = trace w @ cl @ [Ev_free Obj_camera]) \<and>
        (buffer_count camera > 0 \<longrightarrow>
           so \<noteq> [] \<and> list_all (is_ioctl (fd camera) VIDIOC_STREAMOFF) so \<and> list_all is_log lg \<and>
           trace w' = trace w @ so @ lg @ munmap_events (buffer_list camera) @
                        [Ev_free Obj_buffers, Ev_free Obj_head] @ cl @ [Ev_free Obj_camera])))"
proof (intro conjI allI impI)
  fix b w' assume "camera_close K camera w = Some (b, w')"
  then show b by (auto simp: camera_close_def split: option.splits if_splits prod.splits)
next
  assume wf: "camera_wf camera"
  show "\<exists>w' so lg cl.
        camera_close K camera w = Some (True, w') \<and>
        mapped w' = mapped w - regions (buffer_list camera) \<and>
        cl \<noteq> [] \<and> length cl \<le> 10 \<and> list_all (is_close (fd camera)) cl \<and>
        (buffer_count camera = 0 \<longrightarrow> trace w' = trace w @ cl @ [Ev_free Obj_camera]) \<and>
        (buffer_count camera > 0 \<longrightarrow>
           so \<noteq> [] \<and> list_all (is_ioctl (fd camera) VIDIOC_STREAMOFF) so \<and> list_all is_log lg \<and>
           trace w' = trace w @ so @ lg @ munmap_events (buffer_list camera) @
                        [Ev_free Obj_buffers, Ev_free Obj_head] @ cl @ [Ev_free Obj_camera])"
  proof (cases "buffer_count camera > 0")
    case False
    with wf have e: "buffer_list camera = []" by (simp add: camera_wf_def)
    from camera_close_loop_ten [of K camera w] obtain cl where
      "mapped (camera_close_loop K 10 camera w) = mapped w"
      "trace (camera_close_loop K 10 camera w) = trace w @ cl" "cl \<noteq> []"
      "length cl \<le> 10" "list_all (is_close (fd camera)) cl" by blast
    with False e show ?thesis
      by (auto simp: camera_close_def emit_def)
  next
    case True
    obtain b w1 where s: "camera_stop K camera w = (b, w1)" by (rule prod.exhaust)
    from camera_stop_effect [OF s] obtain so lg r a' where
      m1: "mapped w1 = mapped w" and t1: "trace w1 = trace w @ so @ lg"
      and a: "attempts (fd camera) VIDIOC_STREAMOFF a' r so"
      and lg: "lg = (if b then [] else [Ev_log (ctx_log (ctx camera)) CAMERA_ERROR ''VIDIOC_STREAMOFF''
                            (ctx_pointer (ctx camera))])" by blast
    let ?c1 = "camera\<lparr>buffers := None, buffer_count := 0,
                        head := \<lparr>head_start = None, head_length = 0\<rparr>\<rparr>"
    from camera_buffer_finish_effect [OF wf, of K w1] obtain w2 where
      f: "camera_buffer_finish K camera w1 = Some (?c1, w2)"
      and t2: "trace w2 = trace w1 @ munmap_events (buffer_list camera) @ [Ev_free Obj_buffers, Ev_free Obj_head]"
      and m2: "mapped w2 = mapped w1 - regions (buffer_list camera)" by blast
    from camera_close_loop_ten [of K ?c1 w2] obtain cl where
      m3: "mapped (camera_close_loop K 10 ?c1 w2) = mapped w2"
      and t3: "trace (camera_close_loop K 10 ?c1 w2) = trace w2 @ cl" and c: "cl \<noteq> []"
      "length cl \<le> 10" "list_all (is_close (fd camera)) cl" by auto
    have r: "camera_close K camera w = Some (True, emit (Ev_free Obj_camera) (camera_close_loop K 10 ?c1 w2))"
      using True s f by (simp add: camera_close_def)
    have so: "so \<noteq> []" "list_all (is_ioctl (fd camera) VIDIOC_STREAMOFF) so"
      using a by (auto simp: attempts_def)
    have l: "list_all is_log lg" using lg by simp
    show ?thesis
      apply (rule exI [of _ "emit (Ev_free Obj_camera) (camera_close_loop K 10 ?c1 w2)"])
      apply (rule exI [of _ so], rule exI [of _ lg], rule exI [of _ cl])
      using r so l c True m1 m2 m3 t1 t2 t3 by (simp add: emit_def)
  qed
qed

theorem camera_close_returns_true_witness:
  "camera_wf configured_camera \<and> buffer_count configured_camera > 0 \<and>
   (\<exists>w'. camera_close (stub_kernel [10]) configured_camera configured_world = Some (True, w') \<and> mapped w' = {#}) \<and>
   camera_wf camera0 \<and> buffer_count camera0 = 0 \<and>
   (\<exists>w'. camera_close (stub_kernel []) camera0 world0 = Some (True, w'))"
proof -
  have wfc: "camera_wf configured_camera" and n2: "buffer_count configured_camera > 0"
    and r2: "regions (buffer_list configured_camera) = mapped configured_world"
    by (simp_all add: camera_wf_def configured_camera_def buffer_list_def configured_world_def)
  have wf0: "camera_wf camera0" and n0: "buffer_count camera0 = 0"
    by (simp_all add: camera_wf_def camera0_def buffer_list_def)
  from camera_close_returns_true [of "stub_kernel [10]" configured_camera configured_world] wfc r2
  have "\<exists>w'. camera_close (stub_kernel [10]) configured_camera configured_world = Some (True, w') \<and> mapped w' = {#}"
    by auto
  moreover from camera_close_returns_true [of "stub_kernel []" camera0 world0] wf0
  have "\<exists>w'. camera_close (stub_kernel []) camera0 world0 = Some (True, w')"
    by auto
  ultimately show ?thesis using wfc n2 wf0 n0 by simp
qed

text \<open>The same run evaluated: stream-off fails on the stub and the close still returns true.\<close>

lemma camera_close_stream_off_fails:
  "map_option (\<lambda>(b, w). (b, mapped w, map is_log (trace w)))
     (camera_close (stub_kernel [10]) configured_camera configured_world) =
   Some (True, {#}, [False, True, False, False, False, False, False, False])"
  by code_simp

section \<open>Allocating the buffers\<close>

lemma granted_munmap_events: "granted (munmap_events bs) = []"
  by (induction bs) (simp_all add: munmap_events_def)

lemma mmapped_munmap_events: "mmapped (munmap_events bs) = []"
  by (induction bs) (simp_all add: munmap_events_def)

lemma munmapped_munmap_events: "munmapped (munmap_events bs) = buffer_regions bs"
  by (induction bs) (simp_all add: munmap_events_def buffer_regions_def)

lemma last_call_munmap_events: "last_call (munmap_events bs) = None"
  by (induction bs) (simp_all add: munmap_events_def)

lemma ends_with_report_snoc:
  "ends_with_report camera (pre @ [Ev_log f severity msg p]) \<longleftrightarrow>
     f = ctx_log (ctx camera) \<and> p = ctx_pointer (ctx camera) \<and>
     (case last_call pre of
        None \<Rightarrow> False
      | Some c \<Rightarrow> (case failed_call c of
                     Some name \<Rightarrow> severity = CAMERA_ERROR \<and> msg = name
                   | None \<Rightarrow> severity = CAMERA_FAIL))"
  by (simp add: ends_with_report_def)

lemma ends_with_report_ctx:
  "ctx camera' = ctx camera \<Longrightarrow> ends_with_report camera' tr = ends_with_report camera tr"
  by (simp add: ends_with_report_def split: list.splits event.splits)

lemma mmap_effect:
  assumes "mmap K len d off w = (p, w')"
  shows "trace w' = trace w @ [Ev_mmap len d off p] \<and>
         (p = MAP_FAILED \<and> mapped w' = mapped w \<or>
          (\<exists>a. p = Addr a \<and> mapped w' = add_mset (a, len) (mapped w)))"
  using assms by (auto simp: mmap_def emit_def split: prod.splits option.splits)

text \<open>The common exit of a failed buffer: release what is mapped, then report.\<close>

lemma rollback_effect:
  assumes i: "i \<le> length (buffer_list camera)"
    and t: "trace w1 = trace w @ pre"
    and c: "last_call pre = Some c" "failed_call c = Some name"
  shows "\<exists>camera' w2 w3.
     free_buffers K camera i w1 = Some (camera', w2) \<and> error camera' name w2 = (False, w3) \<and>
     buffers camera' = None \<and> buffer_count camera' = 0 \<and> ctx camera' = ctx camera \<and>
     trace w3 = trace w @ pre @ munmap_events (take i (buffer_list camera)) @
                  [Ev_free Obj_buffers,
                   Ev_log (ctx_log (ctx camera)) CAMERA_ERROR name (ctx_pointer (ctx camera))] \<and>
     mapped w3 = mapped w1 - regions (take i (buffer_list camera)) \<and>
     ends_with_report camera (trace w3)"
proof -
  let ?c' = "camera\<lparr>buffers := None, buffer_count := 0\<rparr>"
  from free_buffers_effect [OF i, of K w1] obtain w2 where
    f: "free_buffers K camera i w1 = Some (?c', w2)"
    and t2: "trace w2 = trace w1 @ munmap_events (take i (buffer_list camera)) @ [Ev_free Obj_buffers]"
    and m2: "mapped w2 = mapped w1 - regions (take i (buffer_list camera))" by blast
  let ?w3 = "emit (Ev_log (ctx_log (ctx camera)) CAMERA_ERROR name (ctx_pointer (ctx camera))) w2"
  have e: "error ?c' name w2 = (False, ?w3)" by (simp add: error_def)
  have t3: "trace ?w3 = (trace w @ pre @ munmap_events (take i (buffer_list camera)) @
                  [Ev_free Obj_buffers]) @ 
                   [Ev_log (ctx_log (ctx camera)) CAMERA_ERROR name (ctx_pointer (ctx camera))]"
    using t t2 by (simp add: emit_def)
  have lc: "last_call (trace w @ pre @ munmap_events (take i (buffer_list camera)) @
                  [Ev_free Obj_buffers]) = Some c"
    using c by (simp add: last_call_append last_call_munmap_events)
  have "ends_with_report camera (trace ?w3)"
    unfolding t3 ends_with_report_snoc using lc c by simp
  moreover have "mapped ?w3 = mapped w1 - regions (take i (buffer_list camera))"
    using m2 by (simp add: emit_def)
  ultimately show ?thesis using f e t3 by auto
qed


lemma regions_single:
  "regions [\<lparr>buf_start = Addr a, buf_length = len\<rparr>] = {#(a, len)#}"
  by simp

lemma camera_buffer_prepare_loop_effect:
  assumes "buffers camera = Some bs" "length bs = buffer_count camera" "i \<le> buffer_count camera"
  shows "\<exists>ok bm camera' w' evs.
     camera_buffer_prepare_loop K camera i buf_max w = Some (ok, bm, camera', w') \<and>
     trace w' = trace w @ evs \<and> granted evs = [] \<and> ctx camera' = ctx camera \<and>
     (ok \<longrightarrow> (\<exists>bs'. camera' = camera\<lparr>buffers := Some bs'\<rparr> \<and> length bs' = length bs \<and>
              take i bs' = take i bs \<and> munmapped evs = [] \<and>
              mmapped evs = buffer_regions (drop i bs') \<and>
              size (regions (drop i bs')) = length bs - i \<and>
              mapped w' = mapped w + regions (drop i bs'))) \<and>
     (\<not> ok \<longrightarrow> buffers camera' = None \<and> buffer_count camera' = 0 \<and>
              munmapped evs = buffer_regions (take i bs) @ mmapped evs \<and>
              mapped w' = mapped w - regions (take i bs) \<and>
              ends_with_report camera (trace w'))"
  using assms
proof (induction "buffer_count camera - i" arbitrary: camera bs i buf_max w)
  case 0
  then have "camera_buffer_prepare_loop K camera i buf_max w = Some (True, buf_max, camera, w)"
    by (subst camera_buffer_prepare_loop.simps) simp
  moreover have "camera = camera\<lparr>buffers := Some bs\<rparr>" using 0 by simp
  ultimately show ?case using 0
    apply (intro exI [of _ True] exI [of _ buf_max] exI [of _ camera] exI [of _ w] exI [of _ "[]"])
    apply (simp add: buffer_regions_def)
    apply (rule exI [of _ bs])
    by simp
next
  case (Suc n)
  then have lt: "i < buffer_count camera" by simp
  let ?a = "zero_arg\<lparr>arg_type := V4L2_BUF_TYPE_VIDEO_CAPTURE,
                       arg_memory := V4L2_MEMORY_MMAP, buf_index := of_nat i\<rparr>"
  obtain r buf w1 where x: "xioctl K (fd camera) VIDIOC_QUERYBUF ?a w = (r, buf, w1)"
    by (rule prod_cases3)
  from xioctl_effect [OF x] obtain qe where
    m1: "mapped w1 = mapped w" and t1: "trace w1 = trace w @ qe"
    and at: "attempts (fd camera) VIDIOC_QUERYBUF buf r qe" by blast
  note g1 = attempts_granted [OF at] and mp1 = attempts_mapping [OF at]
  from attempts_last_call [OF at, of "[]"] obtain c where
    lc: "last_call qe = Some c" "failed_call c = (if r = -1 then Some ''VIDIOC_QUERYBUF'' else None)"
    by auto
  have bl: "buffer_list camera = bs" using Suc.prems by (simp add: buffer_list_def)
  show ?case
  proof (cases "r = -1")
    case True
    from lc True have c: "last_call qe = Some c" "failed_call c = Some ''VIDIOC_QUERYBUF''" by simp_all
    have "i \<le> length (buffer_list camera)" using bl Suc.prems by simp
    from rollback_effect [OF this t1 c, of K] obtain camera' w2 w3 where
      f: "free_buffers K camera i w1 = Some (camera', w2)"
      and e: "error camera' ''VIDIOC_QUERYBUF'' w2 = (False, w3)"
      and p: "buffers camera' = None" "buffer_count camera' = 0" "ctx camera' = ctx camera"
      and t3: "trace w3 = trace w @ qe @ munmap_events (take i (buffer_list camera)) @
                  [Ev_free Obj_buffers,
                   Ev_log (ctx_log (ctx camera)) CAMERA_ERROR ''VIDIOC_QUERYBUF'' (ctx_pointer (ctx camera))]"
      and m3: "mapped w3 = mapped w1 - regions (take i (buffer_list camera))"
      and r3: "ends_with_report camera (trace w3)" by blast
    have res: "camera_buffer_prepare_loop K camera i buf_max w = Some (False, buf_max, camera', w3)"
      using lt x True f e by (subst camera_buffer_prepare_loop.simps) simp
    show ?thesis
      apply (intro exI [of _ False] exI [of _ buf_max] exI [of _ camera'] exI [of _ w3])
      apply (rule exI [of _ "qe @ munmap_events (take i bs) @
                  [Ev_free Obj_buffers,
                   Ev_log (ctx_log (ctx camera)) CAMERA_ERROR ''VIDIOC_QUERYBUF'' (ctx_pointer (ctx camera))]"])
      using res t3 p m3 m1 r3 g1 mp1 bl
      by (simp add: granted_append mmapped_append munmapped_append granted_munmap_events
            mmapped_munmap_events munmapped_munmap_events)
  next
    case False
    let ?len = "unat (buf_len buf)"
    let ?bm = "if ?len > buf_max then ?len else buf_max"
    obtain p w2 where mm: "mmap K ?len (fd camera) (buf_m_offset buf) w1 = (p, w2)"
      by (rule prod.exhaust)
    note me = mmap_effect [OF mm]
    let ?bs1 = "bs[i := \<lparr>buf_start = p, buf_length = ?len\<rparr>]"
    let ?c1 = "camera\<lparr>buffers := Some ?bs1\<rparr>"
    have ilt: "i < length bs" using lt Suc.prems by simp
    have tk: "take i ?bs1 = take i bs" by simp
    have t2: "trace w2 = trace w @ (qe @ [Ev_mmap ?len (fd camera) (buf_m_offset buf) p])"
      using me t1 by simp
    show ?thesis
    proof (cases "p = MAP_FAILED")
      case True
      have c: "last_call (qe @ [Ev_mmap ?len (fd camera) (buf_m_offset buf) p]) =
                 Some (Ev_mmap ?len (fd camera) (buf_m_offset buf) p)"
        "failed_call (Ev_mmap ?len (fd camera) (buf_m_offset buf) p) = Some ''mmap''"
        using True by (simp_all add: last_call_append)
      have "i \<le> length (buffer_list ?c1)" using ilt by (simp add: buffer_list_def)
      from rollback_effect [OF this t2 c, of K] obtain camera' w3 w4 where
        f: "free_buffers K ?c1 i w2 = Some (camera', w3)"
        and e: "error camera' ''mmap'' w3 = (False, w4)"
        and pp: "buffers camera' = None" "buffer_count camera' = 0" "ctx camera' = ctx ?c1"
        and t4: "trace w4 = trace w @ (qe @ [Ev_mmap ?len (fd camera) (buf_m_offset buf) p]) @
                  munmap_events (take i (buffer_list ?c1)) @
                  [Ev_free Obj_buffers,
                   Ev_log (ctx_log (ctx ?c1)) CAMERA_ERROR ''mmap'' (ctx_pointer (ctx ?c1))]"
        and m4: "mapped w4 = mapped w2 - regions (take i (buffer_list ?c1))"
        and r4: "ends_with_report ?c1 (trace w4)" by blast
      have res: "camera_buffer_prepare_loop K camera i buf_max w = Some (False, ?bm, camera', w4)"
        using lt x False Suc.prems(1) ilt mm True f e
        by (subst camera_buffer_prepare_loop.simps) (simp add: Let_def)
      have r4': "ends_with_report camera (trace w4)"
        using r4 ends_with_report_ctx [of ?c1 camera] by simp
      have m4': "mapped w4 = mapped w - regions (take i bs)"
        using m4 me True m1 by (simp add: buffer_list_def)
      show ?thesis
        apply (intro exI [of _ False] exI [of _ ?bm] exI [of _ camera'] exI [of _ w4])
        apply (rule exI [of _ "(qe @ [Ev_mmap ?len (fd camera) (buf_m_offset buf) p]) @
                  munmap_events (take i bs) @
                  [Ev_free Obj_buffers,
                   Ev_log (ctx_log (ctx camera)) CAMERA_ERROR ''mmap'' (ctx_pointer (ctx camera))]"])
        using res t4 pp m4' r4' g1 mp1 True
        by (simp add: granted_append mmapped_append munmapped_append granted_munmap_events
              mmapped_munmap_events munmapped_munmap_events buffer_list_def)
    next
      case nf: False
      with me obtain a where pa: "p = Addr a" and m2: "mapped w2 = add_mset (a, ?len) (mapped w1)"
        by auto
      have res: "camera_buffer_prepare_loop K camera i buf_max w =
                   camera_buffer_prepare_loop K ?c1 (i + 1) ?bm w2"
        using lt x False Suc.prems(1) ilt mm nf
        by (subst camera_buffer_prepare_loop.simps) (simp add: Let_def)
      have "n = buffer_count ?c1 - (i + 1)" using Suc(2) by simp
      moreover have "buffers ?c1 = Some ?bs1" "length ?bs1 = buffer_count ?c1"
        "i + 1 \<le> buffer_count ?c1" using Suc.prems lt by simp_all
      ultimately obtain ok bm camera' w' evs where
        ih: "camera_buffer_prepare_loop K ?c1 (i + 1) ?bm w2 = Some (ok, bm, camera', w')"
          "trace w' = trace w2 @ evs" "granted evs = []" "ctx camera' = ctx ?c1"
          "ok \<longrightarrow> (\<exists>bs'. camera' = ?c1\<lparr>buffers := Some bs'\<rparr> \<and> length bs' = length ?bs1 \<and>
              take (i + 1) bs' = take (i + 1) ?bs1 \<and> munmapped evs = [] \<and>
              mmapped evs = buffer_regions (drop (i + 1) bs') \<and>
              size (regions (drop (i + 1) bs')) = length ?bs1 - (i + 1) \<and>
              mapped w' = mapped w2 + regions (drop (i + 1) bs'))"
          "\<not> ok \<longrightarrow> buffers camera' = None \<and> buffer_count camera' = 0 \<and>
              munmapped evs = buffer_regions (take (i + 1) ?bs1) @ mmapped evs \<and>
              mapped w' = mapped w2 - regions (take (i + 1) ?bs1) \<and>
              ends_with_report ?c1 (trace w')"
        using Suc(1) [of ?c1 "i + 1" ?bs1 ?bm w2] by blast
      let ?evs = "qe @ [Ev_mmap ?len (fd camera) (buf_m_offset buf) p] @ evs"
      have tr: "trace w' = trace w @ ?evs" using ih(2) t2 by simp
      have gr: "granted ?evs = []" using g1 ih(3) by (simp add: granted_append)
      have mmv: "mmapped ?evs = (p, ?len) # mmapped evs" "munmapped ?evs = munmapped evs"
        using mp1 nf by (simp_all add: mmapped_append munmapped_append)
      have tk1: "take (i + 1) ?bs1 = take i bs @ [\<lparr>buf_start = p, buf_length = ?len\<rparr>]"
        using ilt by (simp add: take_Suc_conv_app_nth)
      have okc: "ok \<longrightarrow> (\<exists>bs'. camera' = camera\<lparr>buffers := Some bs'\<rparr> \<and> length bs' = length bs \<and>
              take i bs' = take i bs \<and> munmapped ?evs = [] \<and>
              mmapped ?evs = buffer_regions (drop i bs') \<and>
              size (regions (drop i bs')) = length bs - i \<and>
              mapped w' = mapped w + regions (drop i bs'))"
      proof
        assume ok
        with ih(5) obtain bs' where b:
          "camera' = ?c1\<lparr>buffers := Some bs'\<rparr>" "length bs' = length ?bs1"
          "take (i + 1) bs' = take (i + 1) ?bs1" "munmapped evs = []"
          "mmapped evs = buffer_regions (drop (i + 1) bs')"
          "size (regions (drop (i + 1) bs')) = length ?bs1 - (i + 1)"
          "mapped w' = mapped w2 + regions (drop (i + 1) bs')" by blast
        have il: "i < length bs'" using b(2) ilt by simp
        have "take (i + 1) bs' = take i bs' @ [bs' ! i]" using il by (simp add: take_Suc_conv_app_nth)
        with b(3) tk1 have e: "take i bs' = take i bs" "bs' ! i = \<lparr>buf_start = p, buf_length = ?len\<rparr>"
          by simp_all
        have d: "drop i bs' = \<lparr>buf_start = p, buf_length = ?len\<rparr> # drop (i + 1) bs'"
          using il e(2) by (simp add: Cons_nth_drop_Suc [symmetric])
        show "\<exists>bs'. camera' = camera\<lparr>buffers := Some bs'\<rparr> \<and> length bs' = length bs \<and>
              take i bs' = take i bs \<and> munmapped ?evs = [] \<and>
              mmapped ?evs = buffer_regions (drop i bs') \<and>
              size (regions (drop i bs')) = length bs - i \<and>
              mapped w' = mapped w + regions (drop i bs')"
          apply (rule exI [of _ bs'])
          using b e mmv d pa m2 m1 ilt
          by (simp add: buffer_regions_def)
      qed
      have nokc: "\<not> ok \<longrightarrow> buffers camera' = None \<and> buffer_count camera' = 0 \<and>
              munmapped ?evs = buffer_regions (take i bs) @ mmapped ?evs \<and>
              mapped w' = mapped w - regions (take i bs) \<and>
              ends_with_report camera (trace w')"
      proof
        assume "\<not> ok"
        with ih(6) have b: "buffers camera' = None" "buffer_count camera' = 0"
          "munmapped evs = buffer_regions (take (i + 1) ?bs1) @ mmapped evs"
          "mapped w' = mapped w2 - regions (take (i + 1) ?bs1)"
          "ends_with_report ?c1 (trace w')" by simp_all
        have "mapped w' = mapped w - regions (take i bs)"
          using b(4) m2 m1 pa unfolding tk1 regions_append by simp
        moreover have "ends_with_report camera (trace w')"
          using b(5) ends_with_report_ctx [of ?c1 camera] by simp
        moreover have "munmapped ?evs = buffer_regions (take i bs) @ mmapped ?evs"
          using b(3) mmv unfolding tk1 by (simp add: buffer_regions_def)
        ultimately show "buffers camera' = None \<and> buffer_count camera' = 0 \<and>
              munmapped ?evs = buffer_regions (take i bs) @ mmapped ?evs \<and>
              mapped w' = mapped w - regions (take i bs) \<and>
              ends_with_report camera (trace w')" using b by simp
      qed
      show ?thesis
        apply (intro exI [of _ ok] exI [of _ bm] exI [of _ camera'] exI [of _ w'] exI [of _ ?evs])
        using res ih(1) tr gr ih(4) okc nokc by simp
    qed
  qed
qed

section \<open>Initialising and negotiating the format\<close>

lemma quiet_Nil: "quiet []"
  by (simp add: quiet_def)

lemma quiet_append: "quiet (xs @ ys) \<longleftrightarrow> quiet xs \<and> quiet ys"
  by (auto simp: quiet_def granted_append mmapped_append munmapped_append)

lemma quiet_log: "quiet [Ev_log f severity msg p]"
  by (simp add: quiet_def)

lemma quiet_attempts:
  "attempts d q a' r evs \<Longrightarrow> q \<noteq> VIDIOC_REQBUFS \<or> r = -1 \<Longrightarrow> quiet evs"
  using attempts_granted [of d q a' r evs] attempts_mapping [of d q a' r evs]
  by (auto simp: quiet_def)

text \<open>One \<open>xioctl\<close> call followed by the check of its result.\<close>

lemma xioctl_checked:
  assumes "xioctl K (fd camera) q a w = (r, a', w1)"
  shows "mapped w1 = mapped w \<and>
     (\<exists>evs. trace w1 = trace w @ evs \<and> attempts (fd camera) q a' r evs \<and>
        (q \<noteq> VIDIOC_REQBUFS \<or> r = -1 \<longrightarrow> quiet evs)) \<and>
     (r = -1 \<longrightarrow> ends_with_report camera (trace (snd (error camera (request_name q) w1)))) \<and>
     (r \<noteq> -1 \<longrightarrow> ends_with_report camera (trace (snd (failure camera msg w1))))"
proof -
  from xioctl_effect [OF assms] obtain evs where
    m: "mapped w1 = mapped w" and t: "trace w1 = trace w @ evs"
    and a: "attempts (fd camera) q a' r evs" by blast
  from attempts_last_call [OF a, of "trace w"] obtain c where
    c: "last_call (trace w @ evs) = Some c"
       "failed_call c = (if r = -1 then Some (request_name q) else None)" by blast
  have "r = -1 \<longrightarrow> ends_with_report camera (trace (snd (error camera (request_name q) w1)))"
    using c t ends_with_report_snoc [of camera "trace w @ evs"]
    by (simp add: error_def emit_def)
  moreover have "r \<noteq> -1 \<longrightarrow> ends_with_report camera (trace (snd (failure camera msg w1)))"
    using c t ends_with_report_snoc [of camera "trace w @ evs"]
    by (simp add: failure_def emit_def)
  ultimately show ?thesis using m t a quiet_attempts [OF a] by blast
qed

lemma error_trace:
  "trace (snd (error camera msg w)) =
     trace w @ [Ev_log (ctx_log (ctx camera)) CAMERA_ERROR msg (ctx_pointer (ctx camera))] \<and>
   mapped (snd (error camera msg w)) = mapped w \<and> \<not> fst (error camera msg w)"
  by (simp add: error_def emit_def)

lemma failure_trace:
  "trace (snd (failure camera msg w)) =
     trace w @ [Ev_log (ctx_log (ctx camera)) CAMERA_FAIL msg (ctx_pointer (ctx camera))] \<and>
   mapped (snd (failure camera msg w)) = mapped w \<and> \<not> fst (failure camera msg w)"
  by (simp add: failure_def emit_def)

lemma camera_init_effect:
  assumes "camera_init K camera w = (ok, camera', w')"
  shows "mapped w' = mapped w \<and> ctx camera' = ctx camera \<and> buffers camera' = buffers camera \<and>
     buffer_count camera' = buffer_count camera \<and> fd camera' = fd camera \<and>
     (\<exists>evs. trace w' = trace w @ evs \<and> quiet evs) \<and>
     (\<not> ok \<longrightarrow> ends_with_report camera (trace w'))"
proof -
  obtain r cap w1 where x1: "xioctl K (fd camera) VIDIOC_QUERYCAP zero_arg w = (r, cap, w1)"
    by (rule prod_cases3)
  from xioctl_checked [OF x1] obtain e1 where
    m1: "mapped w1 = mapped w" and t1: "trace w1 = trace w @ e1" and q1: "quiet e1"
    and er: "r = -1 \<longrightarrow> ends_with_report camera (trace (snd (error camera ''VIDIOC_QUERYCAP'' w1)))"
    and fl: "\<And>msg. r \<noteq> -1 \<longrightarrow> ends_with_report camera (trace (snd (failure camera msg w1)))"
    by auto
  show ?thesis
  proof (cases "r = -1 \<or> cap_capabilities cap AND V4L2_CAP_VIDEO_CAPTURE = 0 \<or>
                 cap_capabilities cap AND V4L2_CAP_STREAMING = 0")
    case True
    then consider (a) "r = -1" "camera' = camera" "\<not> ok" "w' = snd (error camera ''VIDIOC_QUERYCAP'' w1)"
      | (b) "r \<noteq> -1" "camera' = camera" "\<not> ok" "w' = snd (failure camera ''no capture'' w1)"
      | (c) "r \<noteq> -1" "camera' = camera" "\<not> ok" "w' = snd (failure camera ''no streaming'' w1)"
      using assms x1 by (auto simp: camera_init_def split: prod.splits if_splits)
         (auto simp: error_def failure_def)
    then show ?thesis
    proof cases
      case a
      with er m1 t1 q1 show ?thesis
        by (auto simp: error_trace quiet_append quiet_log)
    next
      case b
      with fl [of "''no capture''"] m1 t1 q1 show ?thesis
        by (auto simp: failure_trace quiet_append quiet_log)
    next
      case c
      with fl [of "''no streaming''"] m1 t1 q1 show ?thesis
        by (auto simp: failure_trace quiet_append quiet_log)
    qed
  next
    case False
    obtain r2 cropcap w2 where x2: "xioctl K (fd camera) VIDIOC_CROPCAP
                    (zero_arg\<lparr>arg_type := V4L2_BUF_TYPE_VIDEO_CAPTURE\<rparr>) w1 = (r2, cropcap, w2)"
      by (rule prod_cases3)
    from xioctl_checked [OF x2] obtain e2 where
      m2: "mapped w2 = mapped w1" and t2: "trace w2 = trace w1 @ e2" and q2: "quiet e2"
      by auto
    obtain r3 crop w3 where x3: "xioctl K (fd camera) VIDIOC_S_CROP
                                 (zero_arg\<lparr>arg_type := V4L2_BUF_TYPE_VIDEO_CAPTURE,
                                            crop_c := cropcap_defrect cropcap\<rparr>) w2 = (r3, crop, w3)"
      by (rule prod_cases3)
    from xioctl_checked [OF x3] obtain e3 where
      m3: "mapped w3 = mapped w2" and t3: "trace w3 = trace w2 @ e3" and q3: "quiet e3"
      by auto
    from False assms x1 x2 x3 have "ok" "camera' = camera\<lparr>initialized := True\<rparr>"
      "w' = (if r2 = 0 then w3 else w2)"
      by (auto simp: camera_init_def Let_def)
    with m1 m2 m3 t1 t2 t3 q1 q2 q3 show ?thesis
      by (auto simp: quiet_append intro: exI [of _ "e1 @ e2 @ e3"] exI [of _ "e1 @ e2"])
  qed
qed

lemma camera_load_settings_effect:
  assumes "camera_load_settings K camera w = (ok, camera', w')"
  shows "mapped w' = mapped w \<and> ctx camera' = ctx camera \<and> buffers camera' = buffers camera \<and>
     buffer_count camera' = buffer_count camera \<and> fd camera' = fd camera \<and>
     (\<exists>evs. trace w' = trace w @ evs \<and> quiet evs) \<and>
     (\<not> ok \<longrightarrow> ends_with_report camera (trace w'))"
proof -
  obtain r fmt w1 where x1: "xioctl K (fd camera) VIDIOC_G_FMT
             (zero_arg\<lparr>arg_type := V4L2_BUF_TYPE_VIDEO_CAPTURE\<rparr>) w = (r, fmt, w1)"
    by (rule prod_cases3)
  from xioctl_checked [OF x1] obtain e1 where
    m1: "mapped w1 = mapped w" and t1: "trace w1 = trace w @ e1" and q1: "quiet e1"
    and er: "r = -1 \<longrightarrow> ends_with_report camera (trace (snd (error camera ''VIDIOC_G_FMT'' w1)))"
    by auto
  show ?thesis
  proof (cases "r = -1")
    case True
    with assms x1 have "\<not> ok" "camera' = camera" "w' = snd (error camera ''VIDIOC_G_FMT'' w1)"
      by (auto simp: camera_load_settings_def error_def split: prod.splits)
    with er True m1 t1 q1 show ?thesis
      by (auto simp: error_trace quiet_append quiet_log)
  next
    case False
    with assms x1 have "ok" "camera' = camera\<lparr>width := pix_width fmt, height := pix_height fmt\<rparr>"
      "w' = w1"
      by (auto simp: camera_load_settings_def)
    with m1 t1 q1 show ?thesis by auto
  qed
qed

lemma camera_set_config_effect:
  assumes "camera_set_config K camera config w = (ok, w')"
  shows "mapped w' = mapped w \<and> (\<exists>evs. trace w' = trace w @ evs \<and> quiet evs) \<and>
     (\<not> ok \<longrightarrow> ends_with_report camera (trace w'))"
proof -
  let ?a = "zero_arg\<lparr>arg_type := V4L2_BUF_TYPE_VIDEO_CAPTURE, pix_width := cfg_width config,
              pix_height := cfg_height config,
              pix_pixelformat := logical_or (cfg_format config) V4L2_PIX_FMT_YUYV,
              pix_field := V4L2_FIELD_NONE\<rparr>"
  let ?b = "zero_arg\<lparr>arg_type := V4L2_BUF_TYPE_VIDEO_CAPTURE,
                  parm_numerator := cfg_interval_numerator config,
                  parm_denominator := cfg_interval_denominator config\<rparr>"
  have second: "mapped w' = mapped w1 \<and> (\<exists>evs. trace w' = trace w1 @ evs \<and> quiet evs) \<and>
     (\<not> ok \<longrightarrow> ends_with_report camera (trace w'))"
    if s: "(if cfg_interval_numerator config \<noteq> 0 \<and> cfg_interval_denominator config \<noteq> 0 then
            (case xioctl K (fd camera) VIDIOC_S_PARM ?b w1 of
               (r, parm, w2) \<Rightarrow>
                 if r = -1 then error camera ''VIDIOC_S_PARM'' w2 else (True, w2))
          else (True, w1)) = (ok, w')" for w1
  proof (cases "cfg_interval_numerator config \<noteq> 0 \<and> cfg_interval_denominator config \<noteq> 0")
    case False
    with s show ?thesis by (auto simp: quiet_Nil)
  next
    case True
    obtain r parm w2 where x: "xioctl K (fd camera) VIDIOC_S_PARM ?b w1 = (r, parm, w2)"
      by (rule prod_cases3)
    from xioctl_checked [OF x] obtain e where
      m: "mapped w2 = mapped w1" and t: "trace w2 = trace w1 @ e" and q: "quiet e"
      and er: "r = -1 \<longrightarrow> ends_with_report camera (trace (snd (error camera ''VIDIOC_S_PARM'' w2)))"
      by auto
    show ?thesis
    proof (cases "r = -1")
      case r: True
      with s True x have "\<not> ok" "w' = snd (error camera ''VIDIOC_S_PARM'' w2)"
        by (auto simp: error_def split: prod.splits)
      with er r m t q show ?thesis by (auto simp: error_trace quiet_append quiet_log)
    next
      case r: False
      with s True x have "ok" "w' = w2" by auto
      with m t q show ?thesis by auto
    qed
  qed
  show ?thesis
  proof (cases "cfg_width config > 0 \<and> cfg_height config > 0")
    case False
    with assms have "(if cfg_interval_numerator config \<noteq> 0 \<and> cfg_interval_denominator config \<noteq> 0 then
            (case xioctl K (fd camera) VIDIOC_S_PARM ?b w of
               (r, parm, w2) \<Rightarrow>
                 if r = -1 then error camera ''VIDIOC_S_PARM'' w2 else (True, w2))
          else (True, w)) = (ok, w')"
      by (simp add: camera_set_config_def)
    from second [OF this] show ?thesis .
  next
    case True
    obtain r fmt w1 where x: "xioctl K (fd camera) VIDIOC_S_FMT ?a w = (r, fmt, w1)"
      by (rule prod_cases3)
    from xioctl_checked [OF x] obtain e where
      m: "mapped w1 = mapped w" and t: "trace w1 = trace w @ e" and q: "quiet e"
      and er: "r = -1 \<longrightarrow> ends_with_report camera (trace (snd (error camera ''VIDIOC_S_FMT'' w1)))"
      by auto
    show ?thesis
    proof (cases "r = -1")
      case r: True
      with assms True x have "\<not> ok" "w' = snd (error camera ''VIDIOC_S_FMT'' w1)"
        by (auto simp: camera_set_config_def Let_def error_def)
      with er r m t q show ?thesis by (auto simp: error_trace quiet_append quiet_log)
    next
      case r: False
      with assms True x have "(if cfg_interval_numerator config \<noteq> 0 \<and> cfg_interval_denominator config \<noteq> 0 then
            (case xioctl K (fd camera) VIDIOC_S_PARM ?b w1 of
               (r, parm, w2) \<Rightarrow>
                 if r = -1 then error camera ''VIDIOC_S_PARM'' w2 else (True, w2))
          else (True, w1)) = (ok, w')"
        by (simp add: camera_set_config_def Let_def)
      from second [OF this] m t q show ?thesis
        by (auto simp: quiet_append)
    qed
  qed
qed

section \<open>Configuring\<close>

lemma camera_buffer_prepare_effect:
  "\<exists>ok camera' w' evs.
     camera_buffer_prepare K camera w = Some (ok, camera', w') \<and>
     trace w' = trace w @ evs \<and> ctx camera' = ctx camera \<and>
     (ok \<longrightarrow> (\<exists>bs. buffers camera' = Some bs \<and> buffer_count camera' = length bs \<and>
              granted evs = [length bs] \<and> munmapped evs = [] \<and>
              mmapped evs = buffer_regions bs \<and> size (regions bs) = length bs \<and>
              mapped w' = mapped w + regions bs)) \<and>
     (\<not> ok \<longrightarrow> ends_with_report camera (trace w') \<and> mapped w' = mapped w \<and>
              munmapped evs = mmapped evs \<and>
              (granted evs = [] \<and> camera' = camera \<or>
               granted evs \<noteq> [] \<and> buffers camera' = None \<and> buffer_count camera' = 0))"
proof -
  let ?a = "zero_arg\<lparr>req_count := 4, arg_type := V4L2_BUF_TYPE_VIDEO_CAPTURE,
                        arg_memory := V4L2_MEMORY_MMAP\<rparr>"
  obtain r req w1 where x: "xioctl K (fd camera) VIDIOC_REQBUFS ?a w = (r, req, w1)"
    by (rule prod_cases3)
  from xioctl_checked [OF x] obtain e where
    m1: "mapped w1 = mapped w" and t1: "trace w1 = trace w @ e"
    and at: "attempts (fd camera) VIDIOC_REQBUFS req r e"
    and er: "r = -1 \<longrightarrow> ends_with_report camera (trace (snd (error camera ''VIDIOC_REQBUFS'' w1)))"
    by auto
  note g = attempts_granted [OF at] and mp = attempts_mapping [OF at]
  show ?thesis
  proof (cases "r = -1")
    case True
    then have "camera_buffer_prepare K camera w =
                 Some (False, camera, snd (error camera ''VIDIOC_REQBUFS'' w1))"
      using x by (simp add: camera_buffer_prepare_def error_def)
    with er True m1 t1 g mp show ?thesis
      by (auto simp: error_trace granted_append mmapped_append munmapped_append
            intro!: exI [of _ "e @ [Ev_log (ctx_log (ctx camera)) CAMERA_ERROR ''VIDIOC_REQBUFS''
                                      (ctx_pointer (ctx camera))]"])
  next
    case False
    let ?n = "unat (req_count req)"
    let ?bs0 = "replicate ?n \<lparr>buf_start = NULL, buf_length = 0\<rparr>"
    let ?c1 = "camera\<lparr>buffer_count := ?n, buffers := Some ?bs0\<rparr>"
    have "buffers ?c1 = Some ?bs0" "length ?bs0 = buffer_count ?c1" "0 \<le> buffer_count ?c1"
      by simp_all
    from camera_buffer_prepare_loop_effect [OF this, of K 0 w1]
    obtain ok bm camera' w' evs where
      l: "camera_buffer_prepare_loop K ?c1 0 0 w1 = Some (ok, bm, camera', w')"
      and t2: "trace w' = trace w1 @ evs" and g2: "granted evs = []"
      and cx: "ctx camera' = ctx ?c1"
      and okc: "ok \<longrightarrow> (\<exists>bs'. camera' = ?c1\<lparr>buffers := Some bs'\<rparr> \<and> length bs' = length ?bs0 \<and>
              take 0 bs' = take 0 ?bs0 \<and> munmapped evs = [] \<and>
              mmapped evs = buffer_regions (drop 0 bs') \<and>
              size (regions (drop 0 bs')) = length ?bs0 - 0 \<and>
              mapped w' = mapped w1 + regions (drop 0 bs'))"
      and nok: "\<not> ok \<longrightarrow> buffers camera' = None \<and> buffer_count camera' = 0 \<and>
              munmapped evs = buffer_regions (take 0 ?bs0) @ mmapped evs \<and>
              mapped w' = mapped w1 - regions (take 0 ?bs0) \<and>
              ends_with_report ?c1 (trace w')"
      by blast
    have ge: "granted (e @ evs) = [?n]" using g g2 False by (simp add: granted_append)
    show ?thesis
    proof (cases ok)
      case True
      with okc obtain bs' where b: "camera' = ?c1\<lparr>buffers := Some bs'\<rparr>" "length bs' = ?n"
        "munmapped evs = []" "mmapped evs = buffer_regions bs'" "size (regions bs') = ?n"
        "mapped w' = mapped w1 + regions bs'" by auto
      let ?c2 = "camera'\<lparr>head := (head camera')\<lparr>head_start := Some (replicate bm 0)\<rparr>\<rparr>"
      have res: "camera_buffer_prepare K camera w = Some (True, ?c2, w')"
        using x False l True by (simp add: camera_buffer_prepare_def Let_def)
      show ?thesis
        apply (intro exI [of _ True] exI [of _ ?c2] exI [of _ w'] exI [of _ "e @ evs"])
        using res t1 t2 cx b ge mp m1
        by (simp add: mmapped_append munmapped_append)
    next
      case nk: False
      with nok have b: "buffers camera' = None" "buffer_count camera' = 0"
        "munmapped evs = mmapped evs" "mapped w' = mapped w1" "ends_with_report ?c1 (trace w')"
        by (simp_all add: buffer_regions_def)
      have res: "camera_buffer_prepare K camera w = Some (False, camera', w')"
        using x False l nk by (simp add: camera_buffer_prepare_def Let_def)
      have "ends_with_report camera (trace w')"
        using b(5) ends_with_report_ctx [of ?c1 camera] by simp
      then show ?thesis
        apply (intro exI [of _ False] exI [of _ camera'] exI [of _ w'] exI [of _ "e @ evs"])
        using res t1 t2 cx b ge mp m1
        by (simp add: mmapped_append munmapped_append)
    qed
  qed
qed


lemma free_buffers_loop_defined:
  "free_buffers_loop K camera i cnt w = Some w' \<Longrightarrow> i < cnt \<Longrightarrow> cnt \<le> length (buffer_list camera)"
proof (induction "cnt - i" arbitrary: i w)
  case 0
  then show ?case by simp
next
  case (Suc n)
  from Suc.prems obtain bs where bs: "buffers camera = Some bs" "i < length bs"
    and r: "free_buffers_loop K camera (i + 1) cnt
              (munmap K (buf_start (bs ! i)) (buf_length (bs ! i)) w) = Some w'"
    by (subst (asm) free_buffers_loop.simps) (auto split: option.splits if_splits)
  show ?case
  proof (cases "i + 1 < cnt")
    case True
    moreover have "n = cnt - (i + 1)" using Suc(2) by simp
    ultimately show ?thesis using Suc(1) r by blast
  next
    case False
    with Suc.prems bs show ?thesis by (simp add: buffer_list_def)
  qed
qed

lemma camera_buffer_finish_defined:
  assumes "camera_buffer_finish K camera w = Some res"
  shows "buffer_count camera \<le> length (buffer_list camera)"
proof (cases "buffer_count camera > 0")
  case True
  from assms obtain w' where "free_buffers_loop K camera 0 (buffer_count camera) w = Some w'"
    by (auto simp: camera_buffer_finish_def free_buffers_def split: option.splits)
  from free_buffers_loop_defined [OF this True] show ?thesis .
qed simp

lemma camera_buffer_finish_run:
  assumes "camera_buffer_finish K camera w = Some (camera', w')"
  shows "camera' = camera\<lparr>buffers := None, buffer_count := 0,
                        head := \<lparr>head_start = None, head_length = 0\<rparr>\<rparr> \<and>
      trace w' = trace w @ munmap_events (take (buffer_count camera) (buffer_list camera)) @
                   [Ev_free Obj_buffers, Ev_free Obj_head] \<and>
      mapped w' = mapped w - regions (take (buffer_count camera) (buffer_list camera))"
  using free_buffers_effect [OF camera_buffer_finish_defined [OF assms], of K w] assms
  by (auto simp: camera_buffer_finish_def emit_def)

lemma camera_stop_report:
  assumes "camera_stop K camera w = (False, w1)"
  shows "ends_with_report camera (trace w1)"
proof -
  obtain r a' w0 where x: "xioctl K (fd camera) VIDIOC_STREAMOFF
      (zero_arg\<lparr>arg_type := V4L2_BUF_TYPE_VIDEO_CAPTURE\<rparr>) w = (r, a', w0)" by (rule prod_cases3)
  with assms have "r = -1" "w1 = snd (error camera ''VIDIOC_STREAMOFF'' w0)"
    by (auto simp: camera_stop_def split: if_splits)
  with xioctl_checked [OF x] show ?thesis by simp
qed

lemma camera_stop_quiet:
  assumes "camera_stop K camera w = (True, w1)"
  shows "mapped w1 = mapped w \<and>
         (\<exists>so. trace w1 = trace w @ so \<and> list_all (is_ioctl (fd camera) VIDIOC_STREAMOFF) so \<and>
                quiet so)"
proof -
  obtain r a' w0 where x: "xioctl K (fd camera) VIDIOC_STREAMOFF
      (zero_arg\<lparr>arg_type := V4L2_BUF_TYPE_VIDEO_CAPTURE\<rparr>) w = (r, a', w0)" by (rule prod_cases3)
  with assms have "w1 = w0"
    by (auto simp: camera_stop_def error_def split: if_splits)
  with xioctl_checked [OF x] show ?thesis by (auto simp: attempts_def)
qed

text \<open>The part of \<open>camera_config\<close> after the buffers of the previous configuration are gone.\<close>

lemma camera_config_rest:
  assumes r: "(case (if \<not> initialized camera1 then camera_init K camera1 w1
                 else (True, camera1, w1)) of
             (False, camera2, w2) \<Rightarrow> Some (False, camera2, w2)
           | (True, camera2, w2) \<Rightarrow>
               (case camera_set_config K camera2 config w2 of
                  (False, w3) \<Rightarrow> Some (False, camera2, w3)
                | (True, w3) \<Rightarrow>
                    (case camera_load_settings K camera2 w3 of
                       (False, camera3, w4) \<Rightarrow> Some (False, camera3, w4)
                     | (True, camera3, w4) \<Rightarrow> camera_buffer_prepare K camera3 w4))) =
            Some (ok, camera', w')"
  shows "ctx camera' = ctx camera1 \<and> (\<not> ok \<longrightarrow> ends_with_report camera1 (trace w')) \<and>
     (ok \<longrightarrow> (\<exists>post bs. trace w' = trace w1 @ post \<and>
        granted post = [length bs] \<and> munmapped post = [] \<and> mmapped post = buffer_regions bs \<and>
        buffers camera' = Some bs \<and> buffer_count camera' = length bs \<and>
        size (regions bs) = length bs \<and> mapped w' = mapped w1 + regions bs))"
proof -
  obtain b2 camera2 w2 where i: "(if \<not> initialized camera1 then camera_init K camera1 w1
                 else (True, camera1, w1)) = (b2, camera2, w2)" by (rule prod_cases3)
  have i': "mapped w2 = mapped w1 \<and> ctx camera2 = ctx camera1 \<and>
     (\<exists>evs. trace w2 = trace w1 @ evs \<and> quiet evs) \<and>
     (\<not> b2 \<longrightarrow> ends_with_report camera1 (trace w2))"
  proof (cases "initialized camera1")
    case True
    with i show ?thesis by (auto simp: quiet_Nil)
  next
    case False
    with i have "camera_init K camera1 w1 = (b2, camera2, w2)" by simp
    from camera_init_effect [OF this] show ?thesis by blast
  qed
  then obtain e2 where m2: "mapped w2 = mapped w1" and c2: "ctx camera2 = ctx camera1"
    and t2: "trace w2 = trace w1 @ e2" and q2: "quiet e2"
    and r2: "\<not> b2 \<longrightarrow> ends_with_report camera1 (trace w2)" by blast
  show ?thesis
  proof (cases b2)
    case False
    with r i have "\<not> ok" "camera' = camera2" "w' = w2" by auto
    with r2 c2 False show ?thesis by simp
  next
    case b2: True
    obtain b3 w3 where s: "camera_set_config K camera2 config w2 = (b3, w3)" by (rule prod.exhaust)
    from camera_set_config_effect [OF s] obtain e3 where
      m3: "mapped w3 = mapped w2" and t3: "trace w3 = trace w2 @ e3" and q3: "quiet e3"
      and r3: "\<not> b3 \<longrightarrow> ends_with_report camera2 (trace w3)" by blast
    show ?thesis
    proof (cases b3)
      case False
      with r i b2 s have "\<not> ok" "camera' = camera2" "w' = w3" by auto
      with r3 c2 False ends_with_report_ctx [OF c2] show ?thesis by simp
    next
      case b3: True
      obtain b4 camera3 w4 where l: "camera_load_settings K camera2 w3 = (b4, camera3, w4)"
        by (rule prod_cases3)
      from camera_load_settings_effect [OF l] obtain e4 where
        m4: "mapped w4 = mapped w3" and c4: "ctx camera3 = ctx camera2"
        and t4: "trace w4 = trace w3 @ e4" and q4: "quiet e4"
        and r4: "\<not> b4 \<longrightarrow> ends_with_report camera2 (trace w4)" by blast
      show ?thesis
      proof (cases b4)
        case False
        with r i b2 s b3 l have "\<not> ok" "camera' = camera3" "w' = w4" by auto
        with r4 c2 c4 False ends_with_report_ctx [OF c2] show ?thesis by simp
      next
        case b4: True
        with r i b2 s b3 l have p: "camera_buffer_prepare K camera3 w4 = Some (ok, camera', w')"
          by simp
        from camera_buffer_prepare_effect [of K camera3 w4] p obtain e5 where
          t5: "trace w' = trace w4 @ e5" and c5: "ctx camera' = ctx camera3"
          and okc: "ok \<longrightarrow> (\<exists>bs. buffers camera' = Some bs \<and> buffer_count camera' = length bs \<and>
              granted e5 = [length bs] \<and> munmapped e5 = [] \<and>
              mmapped e5 = buffer_regions bs \<and> size (regions bs) = length bs \<and>
              mapped w' = mapped w4 + regions bs)"
          and nok: "\<not> ok \<longrightarrow> ends_with_report camera3 (trace w')" by auto
        have cx: "ctx camera3 = ctx camera1" using c2 c4 by simp
        have q: "quiet (e2 @ e3 @ e4)" using q2 q3 q4 by (simp add: quiet_append)
        have tr: "trace w' = trace w1 @ (e2 @ e3 @ e4) @ e5" using t2 t3 t4 t5 by simp
        have "ok \<longrightarrow> (\<exists>post bs. trace w' = trace w1 @ post \<and>
          granted post = [length bs] \<and> munmapped post = [] \<and> mmapped post = buffer_regions bs \<and>
          buffers camera' = Some bs \<and> buffer_count camera' = length bs \<and>
          size (regions bs) = length bs \<and> mapped w' = mapped w1 + regions bs)"
        proof
          assume ok
          with okc obtain bs where b: "buffers camera' = Some bs" "buffer_count camera' = length bs"
              "granted e5 = [length bs]" "munmapped e5 = []"
              "mmapped e5 = buffer_regions bs" "size (regions bs) = length bs"
              "mapped w' = mapped w4 + regions bs" by blast
          show "\<exists>post bs. trace w' = trace w1 @ post \<and>
            granted post = [length bs] \<and> munmapped post = [] \<and> mmapped post = buffer_regions bs \<and>
            buffers camera' = Some bs \<and> buffer_count camera' = length bs \<and>
            size (regions bs) = length bs \<and> mapped w' = mapped w1 + regions bs"
            apply (rule exI [of _ "(e2 @ e3 @ e4) @ e5"], rule exI [of _ bs])
            using tr b q m2 m3 m4 unfolding quiet_def
            by (simp add: granted_append mmapped_append munmapped_append)
        qed
        moreover have "\<not> ok \<longrightarrow> ends_with_report camera1 (trace w')"
          using nok ends_with_report_ctx [OF cx] by simp
        ultimately show ?thesis using c5 cx by simp
      qed
    qed
  qed
qed

lemma camera_config_effect:
  assumes "camera_config K camera config w = Some (ok, camera', w')"
  shows "ctx camera' = ctx camera \<and> (\<not> ok \<longrightarrow> ends_with_report camera (trace w')) \<and>
     (ok \<longrightarrow> (\<exists>pre post bs.
        trace w' = trace w @ pre @ post \<and>
        (buffer_count camera = 0 \<longrightarrow> pre = []) \<and>
        (buffer_count camera > 0 \<longrightarrow>
           (\<exists>so. pre = so @ munmap_events (take (buffer_count camera) (buffer_list camera)) @
                          [Ev_free Obj_buffers, Ev_free Obj_head] \<and>
                 list_all (is_ioctl (fd camera) VIDIOC_STREAMOFF) so \<and> quiet so)) \<and>
        granted post = [length bs] \<and> munmapped post = [] \<and> mmapped post = buffer_regions bs \<and>
        buffers camera' = Some bs \<and> buffer_count camera' = length bs \<and>
        size (regions bs) = length bs \<and>
        mapped w' = (mapped w - regions (take (buffer_count camera) (buffer_list camera))) +
                      regions bs))"
proof (cases "buffer_count camera > 0")
  case False
  with assms have "(case (if \<not> initialized camera then camera_init K camera w
                 else (True, camera, w)) of
             (False, camera2, w2) \<Rightarrow> Some (False, camera2, w2)
           | (True, camera2, w2) \<Rightarrow>
               (case camera_set_config K camera2 config w2 of
                  (False, w3) \<Rightarrow> Some (False, camera2, w3)
                | (True, w3) \<Rightarrow>
                    (case camera_load_settings K camera2 w3 of
                       (False, camera3, w4) \<Rightarrow> Some (False, camera3, w4)
                     | (True, camera3, w4) \<Rightarrow> camera_buffer_prepare K camera3 w4))) =
            Some (ok, camera', w')"
    by (simp add: camera_config_def)
  from camera_config_rest [OF this] False show ?thesis by auto
next
  case True
  obtain b w1 where s: "camera_stop K camera w = (b, w1)" by (rule prod.exhaust)
  show ?thesis
  proof (cases b)
    case False
    with assms True s have "\<not> ok" "camera' = camera" "w' = w1"
      by (auto simp: camera_config_def)
    with camera_stop_report [of K camera w w1] s False show ?thesis by simp
  next
    case b: True
    with s camera_stop_quiet [of K camera w w1] obtain so where
      m1: "mapped w1 = mapped w" and t1: "trace w1 = trace w @ so"
      and so: "list_all (is_ioctl (fd camera) VIDIOC_STREAMOFF) so" "quiet so" by auto
    from assms True s b obtain camera1 w2 where
      f: "camera_buffer_finish K camera w1 = Some (camera1, w2)"
      by (auto simp: camera_config_def split: option.splits)
    note fr = camera_buffer_finish_run [OF f]
    from assms True s b f have "(case (if \<not> initialized camera1 then camera_init K camera1 w2
                 else (True, camera1, w2)) of
             (False, camera2, w2) \<Rightarrow> Some (False, camera2, w2)
           | (True, camera2, w2) \<Rightarrow>
               (case camera_set_config K camera2 config w2 of
                  (False, w3) \<Rightarrow> Some (False, camera2, w3)
                | (True, w3) \<Rightarrow>
                    (case camera_load_settings K camera2 w3 of
                       (False, camera3, w4) \<Rightarrow> Some (False, camera3, w4)
                     | (True, camera3, w4) \<Rightarrow> camera_buffer_prepare K camera3 w4))) =
            Some (ok, camera', w')"
      by (simp add: camera_config_def)
    note rest = camera_config_rest [OF this]
    have cx: "ctx camera1 = ctx camera" using fr by simp
    let ?pre = "so @ munmap_events (take (buffer_count camera) (buffer_list camera)) @
                          [Ev_free Obj_buffers, Ev_free Obj_head]"
    have "ok \<longrightarrow> (\<exists>pre post bs.
        trace w' = trace w @ pre @ post \<and>
        (buffer_count camera = 0 \<longrightarrow> pre = []) \<and>
        (buffer_count camera > 0 \<longrightarrow>
           (\<exists>so. pre = so @ munmap_events (take (buffer_count camera) (buffer_list camera)) @
                          [Ev_free Obj_buffers, Ev_free Obj_head] \<and>
                 list_all (is_ioctl (fd camera) VIDIOC_STREAMOFF) so \<and> quiet so)) \<and>
        granted post = [length bs] \<and> munmapped post = [] \<and> mmapped post = buffer_regions bs \<and>
        buffers camera' = Some bs \<and> buffer_count camera' = length bs \<and>
        size (regions bs) = length bs \<and>
        mapped w' = (mapped w - regions (take (buffer_count camera) (buffer_list camera))) +
                      regions bs)"
    proof
      assume ok
      with rest obtain post bs where p: "trace w' = trace w2 @ post"
        "granted post = [length bs]" "munmapped post = []" "mmapped post = buffer_regions bs"
        "buffers camera' = Some bs" "buffer_count camera' = length bs"
        "size (regions bs) = length bs" "mapped w' = mapped w2 + regions bs" by blast
      show "\<exists>pre post bs.
        trace w' = trace w @ pre @ post \<and>
        (buffer_count camera = 0 \<longrightarrow> pre = []) \<and>
        (buffer_count camera > 0 \<longrightarrow>
           (\<exists>so. pre = so @ munmap_events (take (buffer_count camera) (buffer_list camera)) @
                          [Ev_free Obj_buffers, Ev_free Obj_head] \<and>
                 list_all (is_ioctl (fd camera) VIDIOC_STREAMOFF) so \<and> quiet so)) \<and>
        granted post = [length bs] \<and> munmapped post = [] \<and> mmapped post = buffer_regions bs \<and>
        buffers camera' = Some bs \<and> buffer_count camera' = length bs \<and>
        size (regions bs) = length bs \<and>
        mapped w' = (mapped w - regions (take (buffer_count camera) (buffer_list camera))) +
                      regions bs"
        apply (rule exI [of _ ?pre], rule exI [of _ post], rule exI [of _ bs])
        using p fr t1 m1 so True by auto
    qed
    moreover have "\<not> ok \<longrightarrow> ends_with_report camera (trace w')"
      using rest ends_with_report_ctx [OF cx] by simp
    ultimately show ?thesis using rest cx by simp
  qed
qed

section \<open>Running the program on the stub\<close>

lemma xioctl_stub:
  "xioctl (stub_kernel fails) d q a w =
     (if kernel_state w \<in> set fails
      then (-1, a, w\<lparr>kernel_state := Suc (kernel_state w), errno := 5,
                     trace := trace w @ [Ev_ioctl d q a a (-1)]\<rparr>)
      else (0, stub_reply (kernel_state w) q a,
            w\<lparr>kernel_state := Suc (kernel_state w),
              trace := trace w @ [Ev_ioctl d q a (stub_reply (kernel_state w) q a) 0]\<rparr>))"
proof (cases "kernel_state w \<in> set fails")
  case True
  show ?thesis
    unfolding if_P [OF True]
    by (rule xioctl_first) (use True in \<open>simp_all add: ioctl_def stub_kernel_def emit_def EINTR_def\<close>)
next
  case False
  show ?thesis
    unfolding if_not_P [OF False]
    by (rule xioctl_first) (use False in \<open>simp_all add: ioctl_def stub_kernel_def emit_def\<close>)
qed

lemma mmap_stub:
  "mmap (stub_kernel fails) len d off w =
     (if kernel_state w \<in> set fails
      then (MAP_FAILED, w\<lparr>kernel_state := Suc (kernel_state w), errno := 12,
                           trace := trace w @ [Ev_mmap len d off MAP_FAILED]\<rparr>)
      else (Addr (4096 + unat off),
            w\<lparr>kernel_state := Suc (kernel_state w),
              mapped := mapped w + {#(4096 + unat off, len)#},
              trace := trace w @ [Ev_mmap len d off (Addr (4096 + unat off))]\<rparr>))"
  by (simp add: mmap_def stub_kernel_def emit_def)

lemma munmap_stub:
  "munmap (stub_kernel fails) (Addr a) len w =
     w\<lparr>mapped := mapped w - {#(a, len)#}, trace := trace w @ [Ev_munmap (Addr a) len]\<rparr>"
  by (simp add: munmap_def stub_kernel_def emit_def)

lemma replicate_small: "replicate 2 x = [x, x]" "replicate 3 x = [x, x, x]"
  "replicate 8 x = [x, x, x, x, x, x, x, x]"
  by (simp_all add: numeral_eq_Suc)

lemmas stub_run =
  xioctl_stub mmap_stub munmap_stub camera_config_def camera_init_def camera_set_config_def
  camera_load_settings_def camera_buffer_prepare_def camera_buffer_prepare_loop.simps
  camera_stop_def camera_buffer_finish_def free_buffers_def free_buffers_loop.simps
  stub_reply_def error_def failure_def emit_def world0_def camera0_def config0_def config1_def
  V4L2_CAP_VIDEO_CAPTURE_def V4L2_CAP_STREAMING_def Let_def replicate_small

section \<open>Failed allocation and reconfiguration\<close>








text \<open>
  C2. After two successful \<open>camera_config\<close> calls in a row, whatever the two
  configurations are: each call was granted one buffer count, and the recorded count
  after the second call is the count granted in the second call; the second call unmaps
  every buffer of the first call before it requests or maps anything; the mapped regions
  after the second call are those before it, minus the buffers of the first call, plus
  the buffers of the second. When the buffers of the first call were all that was mapped,
  exactly the buffers of the second call are mapped at the end.
\<close>

theorem camera_config_twice_one_buffer_set:
  assumes c1: "camera_config K cam config_a w0 = Some (True, cam1, w1)"
    and c2: "camera_config K cam1 config_b w1 = Some (True, cam2, w2)"
  shows "\<exists>evs1 evs2 pre post bs1 bs2.
     trace w1 = trace w0 @ evs1 \<and> trace w2 = trace w1 @ evs2 \<and>
     buffers cam1 = Some bs1 \<and> buffers cam2 = Some bs2 \<and>
     granted evs1 = [buffer_count cam1] \<and> granted evs2 = [buffer_count cam2] \<and>
     buffer_count cam2 = length bs2 \<and> size (regions bs2) = length bs2 \<and>
     mmapped evs1 = buffer_regions bs1 \<and> mmapped evs2 = buffer_regions bs2 \<and>
     evs2 = pre @ munmap_events bs1 @ post \<and>
     granted pre = [] \<and> mmapped pre = [] \<and> munmapped post = [] \<and>
     regions bs1 \<subseteq># mapped w1 \<and>
     mapped w2 = (mapped w1 - regions bs1) + regions bs2 \<and>
     (mapped w1 = regions bs1 \<longrightarrow> mapped w2 = regions bs2)"
proof -
  from camera_config_effect [OF c1] have "\<exists>pre post bs.
        trace w1 = trace w0 @ pre @ post \<and>
        (buffer_count cam = 0 \<longrightarrow> pre = []) \<and>
        (buffer_count cam > 0 \<longrightarrow>
           (\<exists>so. pre = so @ munmap_events (take (buffer_count cam) (buffer_list cam)) @
                          [Ev_free Obj_buffers, Ev_free Obj_head] \<and>
                 list_all (is_ioctl (fd cam) VIDIOC_STREAMOFF) so \<and> quiet so)) \<and>
        granted post = [length bs] \<and> munmapped post = [] \<and> mmapped post = buffer_regions bs \<and>
        buffers cam1 = Some bs \<and> buffer_count cam1 = length bs \<and>
        size (regions bs) = length bs \<and>
        mapped w1 = (mapped w0 - regions (take (buffer_count cam) (buffer_list cam))) +
                      regions bs" by simp
  then obtain pre1 post1 bs1 where a0:
       "trace w1 = trace w0 @ pre1 @ post1 \<and>
        (buffer_count cam = 0 \<longrightarrow> pre1 = []) \<and>
        (buffer_count cam > 0 \<longrightarrow>
           (\<exists>so. pre1 = so @ munmap_events (take (buffer_count cam) (buffer_list cam)) @
                          [Ev_free Obj_buffers, Ev_free Obj_head] \<and>
                 list_all (is_ioctl (fd cam) VIDIOC_STREAMOFF) so \<and> quiet so)) \<and>
        granted post1 = [length bs1] \<and> munmapped post1 = [] \<and>
        mmapped post1 = buffer_regions bs1 \<and>
        buffers cam1 = Some bs1 \<and> buffer_count cam1 = length bs1 \<and>
        size (regions bs1) = length bs1 \<and>
        mapped w1 = (mapped w0 - regions (take (buffer_count cam) (buffer_list cam))) +
                      regions bs1"
    by (elim exE)
  then have a: "trace w1 = trace w0 @ pre1 @ post1"
       "buffer_count cam = 0 \<longrightarrow> pre1 = []"
       "buffer_count cam > 0 \<longrightarrow>
           (\<exists>so. pre1 = so @ munmap_events (take (buffer_count cam) (buffer_list cam)) @
                          [Ev_free Obj_buffers, Ev_free Obj_head] \<and>
                 list_all (is_ioctl (fd cam) VIDIOC_STREAMOFF) so \<and> quiet so)"
       "granted post1 = [length bs1]" "mmapped post1 = buffer_regions bs1"
       "buffers cam1 = Some bs1" "buffer_count cam1 = length bs1"
       "mapped w1 = (mapped w0 - regions (take (buffer_count cam) (buffer_list cam))) + regions bs1"
    by simp_all
  have p1: "granted pre1 = [] \<and> mmapped pre1 = []"
  proof (cases "buffer_count cam > 0")
    case True
    with a(3) show ?thesis
      by (auto simp: quiet_def granted_append mmapped_append granted_munmap_events
            mmapped_munmap_events)
  next
    case False
    with a(2) show ?thesis by simp
  qed
  have bl: "buffer_list cam1 = bs1" using a(6) by (simp add: buffer_list_def)
  from camera_config_effect [OF c2] have "\<exists>pre post bs.
        trace w2 = trace w1 @ pre @ post \<and>
        (buffer_count cam1 = 0 \<longrightarrow> pre = []) \<and>
        (buffer_count cam1 > 0 \<longrightarrow>
           (\<exists>so. pre = so @ munmap_events (take (buffer_count cam1) (buffer_list cam1)) @
                          [Ev_free Obj_buffers, Ev_free Obj_head] \<and>
                 list_all (is_ioctl (fd cam1) VIDIOC_STREAMOFF) so \<and> quiet so)) \<and>
        granted post = [length bs] \<and> munmapped post = [] \<and> mmapped post = buffer_regions bs \<and>
        buffers cam2 = Some bs \<and> buffer_count cam2 = length bs \<and>
        size (regions bs) = length bs \<and>
        mapped w2 = (mapped w1 - regions (take (buffer_count cam1) (buffer_list cam1))) +
                      regions bs" by simp
  then obtain pre2 post2 bs2 where b0:
       "trace w2 = trace w1 @ pre2 @ post2 \<and>
        (buffer_count cam1 = 0 \<longrightarrow> pre2 = []) \<and>
        (buffer_count cam1 > 0 \<longrightarrow>
           (\<exists>so. pre2 = so @ munmap_events (take (buffer_count cam1) (buffer_list cam1)) @
                          [Ev_free Obj_buffers, Ev_free Obj_head] \<and>
                 list_all (is_ioctl (fd cam1) VIDIOC_STREAMOFF) so \<and> quiet so)) \<and>
        granted post2 = [length bs2] \<and> munmapped post2 = [] \<and>
        mmapped post2 = buffer_regions bs2 \<and>
        buffers cam2 = Some bs2 \<and> buffer_count cam2 = length bs2 \<and>
        size (regions bs2) = length bs2 \<and>
        mapped w2 = (mapped w1 - regions (take (buffer_count cam1) (buffer_list cam1))) +
                      regions bs2"
    by (elim exE)
  then have b: "trace w2 = trace w1 @ pre2 @ post2"
       "buffer_count cam1 = 0 \<longrightarrow> pre2 = []"
       "buffer_count cam1 > 0 \<longrightarrow>
           (\<exists>so. pre2 = so @ munmap_events (take (buffer_count cam1) (buffer_list cam1)) @
                          [Ev_free Obj_buffers, Ev_free Obj_head] \<and>
                 list_all (is_ioctl (fd cam1) VIDIOC_STREAMOFF) so \<and> quiet so)"
       "granted post2 = [length bs2]" "munmapped post2 = []" "mmapped post2 = buffer_regions bs2"
       "buffers cam2 = Some bs2" "buffer_count cam2 = length bs2" "size (regions bs2) = length bs2"
       "mapped w2 = (mapped w1 - regions (take (buffer_count cam1) (buffer_list cam1))) + regions bs2"
    by simp_all
  have tk: "take (buffer_count cam1) (buffer_list cam1) = bs1" using bl a(7) by simp
  obtain pre post where
    d: "pre2 @ post2 = pre @ munmap_events bs1 @ post" "granted pre = []" "mmapped pre = []"
       "munmapped post = []" "granted (pre2 @ post2) = [length bs2]"
       "mmapped (pre2 @ post2) = buffer_regions bs2"
  proof (cases "buffer_count cam1 > 0")
    case True
    with b(3) tk obtain so where so: "pre2 = so @ munmap_events bs1 @
                          [Ev_free Obj_buffers, Ev_free Obj_head]" "quiet so" by auto
    show ?thesis
      apply (rule that [of so "[Ev_free Obj_buffers, Ev_free Obj_head] @ post2"])
      using so b(4,5,6)
      by (simp_all add: quiet_def granted_append mmapped_append munmapped_append
            granted_munmap_events mmapped_munmap_events)
  next
    case False
    with b(2) a(7) have "pre2 = []" "bs1 = []" by simp_all
    then show ?thesis
      apply (intro that [of "[]" post2])
      using b(4,5,6) by (simp_all add: munmap_events_def)
  qed
  show ?thesis
    apply (rule exI [of _ "pre1 @ post1"], rule exI [of _ "pre2 @ post2"])
    apply (rule exI [of _ pre], rule exI [of _ post], rule exI [of _ bs1], rule exI [of _ bs2])
    using a(1,4,5,6,7,8) p1 b(1,7,8,9,10) d tk
    by (simp add: granted_append mmapped_append)
qed

lemma stub_first_configuration:
  "map_option (\<lambda>(ok, c, w). (ok, c, mapped w, kernel_state w))
     (camera_config (stub_kernel []) camera0 config0 world0) =
   Some (True, configured_camera, {#(4096, 8), (4104, 8)#}, 10)"
  by (simp add: stub_run configured_camera_def)

lemma stub_second_configuration:
  "kernel_state w = 10 \<Longrightarrow>
   map_option (\<lambda>(ok, c, w). (ok, buffer_count c))
     (camera_config (stub_kernel []) configured_camera config1 w) = Some (True, 3)"
  by (simp add: stub_run configured_camera_def)

theorem camera_config_twice_one_buffer_set_witness:
  "\<exists>w1 cam2 w2.
     camera_config (stub_kernel []) camera0 config0 world0 = Some (True, configured_camera, w1) \<and>
     camera_config (stub_kernel []) configured_camera config1 w1 = Some (True, cam2, w2) \<and>
     buffer_count configured_camera = 2 \<and> buffer_count cam2 = 3 \<and>
     mapped w2 = regions (buffer_list cam2) \<and> size (mapped w2) = 3"
proof -
  from stub_first_configuration obtain w1 where
    r1: "camera_config (stub_kernel []) camera0 config0 world0 = Some (True, configured_camera, w1)"
    and k: "kernel_state w1 = 10" and m: "mapped w1 = {#(4096, 8), (4104, 8)#}"
    by (auto split: option.splits)
  from stub_second_configuration [OF k] obtain cam2 w2 where
    r2: "camera_config (stub_kernel []) configured_camera config1 w1 = Some (True, cam2, w2)"
    and n: "buffer_count cam2 = 3"
    by (auto split: option.splits)
  from camera_config_twice_one_buffer_set [OF r1 r2] obtain bs1 bs2 where
    t: "buffers configured_camera = Some bs1" "buffers cam2 = Some bs2"
       "size (regions bs2) = length bs2" "buffer_count cam2 = length bs2"
       "mapped w1 = regions bs1 \<longrightarrow> mapped w2 = regions bs2"
    by blast
  from t(1) m have "mapped w1 = regions bs1" by (auto simp: configured_camera_def)
  with t n r1 r2 show ?thesis
    by (auto simp: buffer_list_def configured_camera_def)
qed

section \<open>Reports of device errors\<close>

lemma camera_load_effect:
  assumes "camera_load K camera w = Some (ok, camera', w')"
  shows "ctx camera' = ctx camera \<and> (\<not> ok \<longrightarrow> ends_with_report camera (trace w'))"
proof -
  obtain b1 cam1 w1 where i: "(if \<not> initialized camera then camera_init K camera w
                                else (True, camera, w)) = (b1, cam1, w1)" by (rule prod_cases3)
  have i': "ctx cam1 = ctx camera \<and> (\<not> b1 \<longrightarrow> ends_with_report camera (trace w1))"
  proof (cases "initialized camera")
    case True
    with i show ?thesis by auto
  next
    case False
    with i have "camera_init K camera w = (b1, cam1, w1)" by simp
    from camera_init_effect [OF this] show ?thesis by blast
  qed
  show ?thesis
  proof (cases b1)
    case False
    with assms i have "\<not> ok" "camera' = cam1" "w' = w1" by (auto simp: camera_load_def)
    with i' False show ?thesis by simp
  next
    case b1: True
    show ?thesis
    proof (cases "buffer_count cam1 = 0")
      case False
      with assms i b1 have "ok" "camera' = cam1" by (auto simp: camera_load_def)
      with i' show ?thesis by simp
    next
      case True
      obtain b2 cam2 w2 where l: "camera_load_settings K cam1 w1 = (b2, cam2, w2)"
        by (rule prod_cases3)
      from camera_load_settings_effect [OF l] have
        l': "ctx cam2 = ctx cam1" "\<not> b2 \<longrightarrow> ends_with_report cam1 (trace w2)" by simp_all
      show ?thesis
      proof (cases b2)
        case False
        with assms i b1 True l have "\<not> ok" "camera' = cam2" "w' = w2"
          by (auto simp: camera_load_def)
        with l' i' False ends_with_report_ctx [of cam1 camera] show ?thesis by simp
      next
        case b2: True
        with assms i b1 True l have p: "camera_buffer_prepare K cam2 w2 = Some (ok, camera', w')"
          by (auto simp: camera_load_def split: option.splits bool.splits)
        from camera_buffer_prepare_effect [of K cam2 w2] p have
          "ctx camera' = ctx cam2" "\<not> ok \<longrightarrow> ends_with_report cam2 (trace w')" by auto
        with l' i' ends_with_report_ctx [of cam2 camera] show ?thesis by simp
      qed
    qed
  qed
qed

lemma camera_start_loop_report:
  "camera_start_loop K camera i w = (False, w') \<Longrightarrow> ends_with_report camera (trace w')"
proof (induction "buffer_count camera - i" arbitrary: i w)
  case 0
  then show ?case by (subst (asm) camera_start_loop.simps) simp
next
  case (Suc n)
  then have lt: "i < buffer_count camera" by simp
  let ?a = "zero_arg\<lparr>arg_type := V4L2_BUF_TYPE_VIDEO_CAPTURE,
                       arg_memory := V4L2_MEMORY_MMAP, buf_index := of_nat i\<rparr>"
  obtain r buf w1 where x: "xioctl K (fd camera) VIDIOC_QBUF ?a w = (r, buf, w1)"
    by (rule prod_cases3)
  show ?case
  proof (cases "r = -1")
    case True
    with Suc.prems lt x have "w' = snd (error camera ''VIDIOC_QBUF'' w1)"
      by (subst (asm) camera_start_loop.simps) (auto simp: error_def)
    with xioctl_checked [OF x] True show ?thesis by simp
  next
    case False
    with Suc.prems lt x have "camera_start_loop K camera (i + 1) w1 = (False, w')"
      by (subst (asm) camera_start_loop.simps) simp
    moreover have "n = buffer_count camera - (i + 1)" using Suc(2) by simp
    ultimately show ?thesis using Suc(1) by blast
  qed
qed

lemma camera_start_report:
  assumes "camera_start K camera w = Some (False, camera', w')"
  shows "ends_with_report camera (trace w')"
proof -
  from assms obtain b1 cam1 w1 where l: "camera_load K camera w = Some (b1, cam1, w1)"
    by (auto simp: camera_start_def split: option.splits)
  note le = camera_load_effect [OF l]
  show ?thesis
  proof (cases b1)
    case False
    with assms l have "w' = w1" by (simp add: camera_start_def)
    with le False show ?thesis by simp
  next
    case b1: True
    obtain b2 w2 where s: "camera_start_loop K cam1 0 w1 = (b2, w2)" by (rule prod.exhaust)
    show ?thesis
    proof (cases b2)
      case False
      with assms l b1 s have "w' = w2" by (simp add: camera_start_def)
      with camera_start_loop_report [of K cam1 0 w1 w2] s False le
        ends_with_report_ctx [of cam1 camera] show ?thesis by simp
    next
      case b2: True
      obtain r t w3 where x: "xioctl K (fd cam1) VIDIOC_STREAMON
                       (zero_arg\<lparr>arg_type := V4L2_BUF_TYPE_VIDEO_CAPTURE\<rparr>) w2 = (r, t, w3)"
        by (rule prod_cases3)
      with assms l b1 s b2 have "r = -1" "w' = snd (error cam1 ''VIDIOC_STREAMON'' w3)"
        by (auto simp: camera_start_def error_def split: if_splits)
      with xioctl_checked [OF x] le ends_with_report_ctx [of cam1 camera] show ?thesis by simp
    qed
  qed
qed

lemma ioctl_report:
  assumes "ioctl K (fd camera) q a w = (-1, a', w1)"
  shows "ends_with_report camera (trace (snd (error camera (request_name q) w1)))"
  using ioctl_effect [OF assms] ends_with_report_snoc [of camera "trace w @ [Ev_ioctl (fd camera) q a a' (-1)]"]
  by (simp add: error_def emit_def last_call_append)

lemma camera_control_get_report:
  assumes "camera_control_get K camera cid val w = (False, val', w')"
  shows "ends_with_report camera (trace w')"
proof -
  obtain r ctrl w1 where i: "ioctl K (fd camera) VIDIOC_G_CTRL
      (zero_arg\<lparr>ctrl_id := cid, ctrl_value := 0\<rparr>) w = (r, ctrl, w1)" by (rule prod_cases3)
  with assms have "r = -1" "w' = snd (error camera ''VIDIOC_G_CTRL'' w1)"
    by (auto simp: camera_control_get_def error_def split: if_splits)
  with ioctl_report [of K camera VIDIOC_G_CTRL _ w ctrl w1] i show ?thesis by simp
qed

lemma camera_control_set_report:
  assumes "camera_control_set K camera cid val w = (False, w')"
  shows "ends_with_report camera (trace w')"
proof -
  obtain r ctrl w1 where i: "ioctl K (fd camera) VIDIOC_S_CTRL
      (zero_arg\<lparr>ctrl_id := cid, ctrl_value := val\<rparr>) w = (r, ctrl, w1)" by (rule prod_cases3)
  with assms have "r = -1" "w' = snd (error camera ''VIDIOC_S_CTRL'' w1)"
    by (auto simp: camera_control_set_def error_def split: if_splits)
  with ioctl_report [of K camera VIDIOC_S_CTRL _ w ctrl w1] i show ?thesis by simp
qed

lemma ioctls_no_log: "list_all (is_ioctl d q) evs \<Longrightarrow> filter is_log evs = []"
  by (induction evs) (auto dest!: is_ioctl_cases)

lemma xioctl_no_log:
  assumes "xioctl K d q a w = (r, a', w')"
  shows "filter is_log (trace w') = filter is_log (trace w)"
  using xioctl_effect [OF assms] by (auto simp: attempts_def ioctls_no_log)

lemma camera_capture_no_log:
  assumes "camera_capture K camera w = Some (ok, camera', w')"
  shows "filter is_log (trace w') = filter is_log (trace w)"
proof -
  obtain r buf w1 where x: "xioctl K (fd camera) VIDIOC_DQBUF
             (zero_arg\<lparr>arg_type := V4L2_BUF_TYPE_VIDEO_CAPTURE,
                        arg_memory := V4L2_MEMORY_MMAP\<rparr>) w = (r, buf, w1)" by (rule prod_cases3)
  note n1 = xioctl_no_log [OF x]
  show ?thesis
  proof (cases "r = -1")
    case True
    with assms x have "w' = w1" by (simp add: camera_capture_def)
    with n1 show ?thesis by simp
  next
    case False
    obtain r2 buf2 w2 where y: "xioctl K (fd camera) VIDIOC_QBUF buf w1 = (r2, buf2, w2)"
      by (rule prod_cases3)
    with assms x False have "w' = w2"
      by (auto simp: camera_capture_def Let_def split: option.splits if_splits)
    with n1 xioctl_no_log [OF y] show ?thesis by simp
  qed
qed

lemma camera_open_no_log:
  "camera_open K device w = (res, w') \<Longrightarrow> filter is_log (trace w') = filter is_log (trace w)"
  by (auto simp: camera_open_def sys_open_def emit_def split: prod.splits if_splits)

text \<open>
  Whenever \<open>camera_stop\<close>, \<open>camera_config\<close>, \<open>camera_start\<close>, \<open>camera_control_get\<close> or
  \<open>camera_control_set\<close> returns false, the last thing it did was to call the camera's
  diagnostics callback, and when the last device call before that reported an error, the
  severity is \<open>CAMERA_ERROR\<close> and the message is the name of that call.
  \<open>camera_capture\<close> that returns false, and \<open>camera_open\<close> that returns null, have not
  called the diagnostics callback at all.
\<close>

lemma returned_failures_reported:
  "(camera_stop K camera w = (False, w') \<longrightarrow> ends_with_report camera (trace w')) \<and>
   (camera_config K camera config w = Some (False, camera', w') \<longrightarrow>
      ends_with_report camera (trace w')) \<and>
   (camera_start K camera w = Some (False, camera', w') \<longrightarrow>
      ends_with_report camera (trace w')) \<and>
   (camera_control_get K camera cid val w = (False, val', w') \<longrightarrow>
      ends_with_report camera (trace w')) \<and>
   (camera_control_set K camera cid val w = (False, w') \<longrightarrow>
      ends_with_report camera (trace w')) \<and>
   (camera_capture K camera w = Some (False, camera', w') \<longrightarrow>
      filter is_log (trace w') = filter is_log (trace w)) \<and>
   (camera_open K device w = (None, w') \<longrightarrow>
      filter is_log (trace w') = filter is_log (trace w))"
  using camera_stop_report [of K camera w w'] camera_config_effect [of K camera config w False camera' w']
    camera_start_report [of K camera w camera' w']
    camera_control_get_report [of K camera cid val w val' w']
    camera_control_set_report [of K camera cid val w w']
    camera_capture_no_log [of K camera w False camera' w']
    camera_open_no_log [of K device w None w']
  by simp


lemma ioctl_stub:
  "ioctl (stub_kernel fails) d q a w =
     (if kernel_state w \<in> set fails
      then (-1, a, w\<lparr>kernel_state := Suc (kernel_state w), errno := 5,
                     trace := trace w @ [Ev_ioctl d q a a (-1)]\<rparr>)
      else (0, stub_reply (kernel_state w) q a,
            w\<lparr>kernel_state := Suc (kernel_state w),
              trace := trace w @ [Ev_ioctl d q a (stub_reply (kernel_state w) q a) 0]\<rparr>))"
  by (simp add: ioctl_def stub_kernel_def emit_def)

lemma sys_open_stub:
  "sys_open (stub_kernel fails) path flags w =
     (if kernel_state w \<in> set fails
      then (-1, w\<lparr>kernel_state := Suc (kernel_state w), errno := 2,
                  trace := trace w @ [Ev_open path flags (-1)]\<rparr>)
      else (3, w\<lparr>kernel_state := Suc (kernel_state w),
                 trace := trace w @ [Ev_open path flags 3]\<rparr>))"
  by (simp add: sys_open_def stub_kernel_def emit_def)

lemmas stub_run_more =
  stub_run ioctl_stub sys_open_stub camera_start_def camera_load_def camera_start_loop.simps
  camera_capture_def memcpy_head_def readable_def camera_control_get_def
  camera_control_set_def camera_open_def configured_camera_def configured_world_def
  ends_with_report_def

text \<open>
  C6 fails on the code for \<open>camera_capture\<close>. On the stub, a failing dequeue (first run)
  and a failing requeue (second run, on a configured camera) both make it return false,
  and in both runs the trace holds the failed call but no call of the diagnostics
  callback. \<open>camera_start\<close> on the same camera (third run) reports the failure of the same
  request, \<open>VIDIOC_QBUF\<close>, with severity \<open>CAMERA_ERROR\<close>.
\<close>

theorem capture_failure_not_reported:
  "map_option fst (camera_capture (stub_kernel [0]) camera0 world0) = Some False \<and>
   map_option (map failed_call \<circ> trace \<circ> snd \<circ> snd)
     (camera_capture (stub_kernel [0]) camera0 world0) = Some [Some ''VIDIOC_DQBUF''] \<and>
   map_option (ends_with_report camera0 \<circ> trace \<circ> snd \<circ> snd)
     (camera_capture (stub_kernel [0]) camera0 world0) = Some False \<and>
   map_option (filter is_log \<circ> trace \<circ> snd \<circ> snd)
     (camera_capture (stub_kernel [0]) camera0 world0) = Some [] \<and>
   map_option fst (camera_capture (stub_kernel [11]) configured_camera configured_world) =
     Some False \<and>
   map_option (map failed_call \<circ> trace \<circ> snd \<circ> snd)
     (camera_capture (stub_kernel [11]) configured_camera configured_world) =
     Some [None, Some ''VIDIOC_QBUF''] \<and>
   map_option (ends_with_report configured_camera \<circ> trace \<circ> snd \<circ> snd)
     (camera_capture (stub_kernel [11]) configured_camera configured_world) = Some False \<and>
   map_option (filter is_log \<circ> trace \<circ> snd \<circ> snd)
     (camera_capture (stub_kernel [11]) configured_camera configured_world) = Some [] \<and>
   map_option fst (camera_start (stub_kernel [10]) configured_camera configured_world) =
     Some False \<and>
   map_option (map failed_call \<circ> filter is_call \<circ> trace \<circ> snd \<circ> snd)
     (camera_start (stub_kernel [10]) configured_camera configured_world) =
     Some [Some ''VIDIOC_QBUF''] \<and>
   map_option (filter is_log \<circ> trace \<circ> snd \<circ> snd)
     (camera_start (stub_kernel [10]) configured_camera configured_world) =
     Some [Ev_log Log_stderr CAMERA_ERROR ''VIDIOC_QBUF'' NULL]"
  by (simp add: stub_run_more)

text \<open>The operations run on the stub with a failing device call.\<close>

lemma returned_failures_reported_on_stub:
  "fst (camera_stop (stub_kernel [0]) camera0 world0) = False \<and>
   ends_with_report camera0 (trace (snd (camera_stop (stub_kernel [0]) camera0 world0))) \<and>
   map_option fst (camera_config (stub_kernel [3]) camera0 config0 world0) = Some False \<and>
   map_option (ends_with_report camera0 \<circ> trace \<circ> snd \<circ> snd)
     (camera_config (stub_kernel [3]) camera0 config0 world0) = Some True \<and>
   map_option fst (camera_start (stub_kernel [0]) camera0 world0) = Some False \<and>
   map_option (ends_with_report camera0 \<circ> trace \<circ> snd \<circ> snd)
     (camera_start (stub_kernel [0]) camera0 world0) = Some True \<and>
   fst (camera_control_get (stub_kernel [0]) camera0 9 42 world0) = False \<and>
   ends_with_report camera0
     (trace (snd (snd (camera_control_get (stub_kernel [0]) camera0 9 42 world0)))) \<and>
   fst (camera_control_set (stub_kernel [0]) camera0 9 42 world0) = False \<and>
   ends_with_report camera0
     (trace (snd (camera_control_set (stub_kernel [0]) camera0 9 42 world0))) \<and>
   map_option fst (camera_capture (stub_kernel [0]) camera0 world0) = Some False \<and>
   map_option (filter is_log \<circ> trace \<circ> snd \<circ> snd)
     (camera_capture (stub_kernel [0]) camera0 world0) = Some [] \<and>
   fst (camera_open (stub_kernel [0]) ''/dev/video0'' world0) = None \<and>
   filter is_log (trace (snd (camera_open (stub_kernel [0]) ''/dev/video0'' world0))) = []"
proof -
  have "fst (camera_stop (stub_kernel [0]) camera0 world0) = False"
    by (simp add: stub_run)
  then obtain w1 where h1: "camera_stop (stub_kernel [0]) camera0 world0 = (False, w1)"
    by (cases "camera_stop (stub_kernel [0]) camera0 world0") auto
  have "map_option fst (camera_config (stub_kernel [3]) camera0 config0 world0) = Some False"
    by (simp add: stub_run)
  then obtain c2 w2 where
    h2: "camera_config (stub_kernel [3]) camera0 config0 world0 = Some (False, c2, w2)"
    by (cases "camera_config (stub_kernel [3]) camera0 config0 world0") auto
  have "map_option fst (camera_start (stub_kernel [0]) camera0 world0) = Some False"
    by (simp add: stub_run_more)
  then obtain c3 w3 where
    h3: "camera_start (stub_kernel [0]) camera0 world0 = Some (False, c3, w3)"
    by (cases "camera_start (stub_kernel [0]) camera0 world0") auto
  have "fst (camera_control_get (stub_kernel [0]) camera0 9 42 world0) = False"
    by (simp add: stub_run_more)
  then obtain v4 w4 where
    h4: "camera_control_get (stub_kernel [0]) camera0 9 42 world0 = (False, v4, w4)"
    by (cases "camera_control_get (stub_kernel [0]) camera0 9 42 world0") auto
  have "fst (camera_control_set (stub_kernel [0]) camera0 9 42 world0) = False"
    by (simp add: stub_run_more)
  then obtain w5 where
    h5: "camera_control_set (stub_kernel [0]) camera0 9 42 world0 = (False, w5)"
    by (cases "camera_control_set (stub_kernel [0]) camera0 9 42 world0") auto
  have "map_option fst (camera_capture (stub_kernel [0]) camera0 world0) = Some False"
    by (simp add: stub_run_more)
  then obtain c6 w6 where
    h6: "camera_capture (stub_kernel [0]) camera0 world0 = Some (False, c6, w6)"
    by (cases "camera_capture (stub_kernel [0]) camera0 world0") auto
  have "fst (camera_open (stub_kernel [0]) ''/dev/video0'' world0) = None"
    by (simp add: stub_run_more)
  then obtain w7 where
    h7: "camera_open (stub_kernel [0]) ''/dev/video0'' world0 = (None, w7)"
    by (cases "camera_open (stub_kernel [0]) ''/dev/video0'' world0") auto
  have e: "trace world0 = []" by (simp add: world0_def)
  from returned_failures_reported
         [where K = "stub_kernel [0]" and camera = camera0 and w = world0 and w' = w1] h1
  have r1: "ends_with_report camera0 (trace w1)" by simp
  from returned_failures_reported
         [where K = "stub_kernel [3]" and camera = camera0 and w = world0 and w' = w2
            and config = config0 and camera' = c2] h2
  have r2: "ends_with_report camera0 (trace w2)" by simp
  from returned_failures_reported
         [where K = "stub_kernel [0]" and camera = camera0 and w = world0 and w' = w3
            and camera' = c3] h3
  have r3: "ends_with_report camera0 (trace w3)" by simp
  from returned_failures_reported
         [where K = "stub_kernel [0]" and camera = camera0 and w = world0 and w' = w4
            and cid = 9 and val = 42 and val' = v4] h4
  have r4: "ends_with_report camera0 (trace w4)" by simp
  from returned_failures_reported
         [where K = "stub_kernel [0]" and camera = camera0 and w = world0 and w' = w5
            and cid = 9 and val = 42] h5
  have r5: "ends_with_report camera0 (trace w5)" by simp
  from returned_failures_reported
         [where K = "stub_kernel [0]" and camera = camera0 and w = world0 and w' = w6
            and camera' = c6] h6 e
  have r6: "filter is_log (trace w6) = []" by simp
  from returned_failures_reported
         [where K = "stub_kernel [0]" and device = "''/dev/video0''" and w = world0 and w' = w7]
       h7 e
  have r7: "filter is_log (trace w7) = []" by simp
  from h1 h2 h3 h4 h5 h6 h7 r1 r2 r3 r4 r5 r6 r7 show ?thesis by simp
qed

end
